(* ===== verification/Prelude.thy ===== *)
theory Prelude
  imports Main "HOL-Library.Multiset" "HOL-Library.AList" "HOL-Library.Char_ord"
    "HOL-Library.List_Lexorder"
begin

text \<open>
  Shared vocabulary of the development: the types every component uses, the combinators for
  computations that thread a state and may return an error (the Go idiom
  \<open>v, err := f(); if err != nil { return err }\<close>), and the generic facts on lists, options,
  association lists and such computations that the component proofs use.
\<close>

named_theorems comp_simps \<open>unfolding of state-and-error computations\<close>
named_theorems go_simps \<open>facts on the Go standard library functions\<close>

section \<open>Types\<close>

text \<open>
  A point in time is the number of nanoseconds since the Unix epoch, unbounded as the seconds
  and nanoseconds pair of a Go \<open>time.Time\<close> is for all practical dates.
\<close>

type_synonym nanos = int

text \<open>Go's zero \<open>time.Time\<close> (January 1, year 1, UTC), in nanoseconds since the Unix epoch.\<close>

definition zero_time :: nanos where
  "zero_time = -62135596800000000000"

text \<open>\<open>int64\<close> arithmetic: two's complement wrap-around.\<close>

definition wrap64 :: "int \<Rightarrow> int" where
  "wrap64 n = (n + 9223372036854775808) mod 18446744073709551616 - 9223372036854775808"

definition int64_range :: "int \<Rightarrow> bool" where
  "int64_range n \<longleftrightarrow> - 9223372036854775808 \<le> n \<and> n \<le> 9223372036854775807"

lemma wrap64_range [simp]: "int64_range (wrap64 n)"
  unfolding int64_range_def wrap64_def
  using pos_mod_bound [of 18446744073709551616 "n + 9223372036854775808"]
    pos_mod_sign [of 18446744073709551616 "n + 9223372036854775808"] by linarith

lemma wrap64_id [simp]: "int64_range n \<Longrightarrow> wrap64 n = n"
  by (simp add: int64_range_def wrap64_def)

section \<open>Computations with a state and an error\<close>

text \<open>
  A computation takes the state and returns an error (\<open>Inl\<close>) or a value (\<open>Inr\<close>), with the
  state it leaves behind in both cases: an error return of the Go code keeps the side effects
  that happened before it.
\<close>

type_synonym ('s, 'e, 'a) comp = "'s \<Rightarrow> ('e + 'a) \<times> 's"

definition ret :: "'a \<Rightarrow> ('s, 'e, 'a) comp" where
  "ret a s = (Inr a, s)"

definition fail :: "'e \<Rightarrow> ('s, 'e, 'a) comp" where
  "fail e s = (Inl e, s)"

definition bnd :: "('s, 'e, 'a) comp \<Rightarrow> ('a \<Rightarrow> ('s, 'e, 'b) comp) \<Rightarrow> ('s, 'e, 'b) comp" where
  "bnd m f s = (case m s of (Inl e, s') \<Rightarrow> (Inl e, s') | (Inr a, s') \<Rightarrow> f a s')"

text \<open>\<open>_ = m()\<close>: run a computation for its effect and drop its error.\<close>

definition ignore :: "('s, 'e, 'a) comp \<Rightarrow> ('s, 'f, unit) comp" where
  "ignore m s = (Inr (), snd (m s))"

text \<open>A pure function that may fail, as a computation.\<close>

definition lift_result :: "'e + 'a \<Rightarrow> ('s, 'e, 'a) comp" where
  "lift_result r s = (r, s)"

lemmas comp_defs = ret_def fail_def bnd_def ignore_def lift_result_def

lemma bnd_ret [simp]: "bnd (ret a) f = f a"
  by (rule ext) (simp add: comp_defs)

lemma bnd_fail [simp]: "bnd (fail e) f = fail e"
  by (rule ext) (simp add: comp_defs)

lemma bnd_assoc: "bnd (bnd m f) g = bnd m (\<lambda>a. bnd (f a) g)"
  by (rule ext) (simp add: bnd_def split: prod.splits sum.splits)

lemma bnd_InrE:
  assumes "bnd m f s = (Inr b, s'')"
  obtains a s' where "m s = (Inr a, s')" and "f a s' = (Inr b, s'')"
  using assms by (auto simp: bnd_def split: prod.splits sum.splits)

lemma bnd_InlE:
  assumes "bnd m f s = (Inl e, s'')"
  obtains (first) "m s = (Inl e, s'')"
  | (second) a s' where "m s = (Inr a, s')" and "f a s' = (Inl e, s'')"
  using assms by (auto simp: bnd_def split: prod.splits sum.splits)

text \<open>
  A computation keeps a property of the state when it holds after the computation whatever
  the outcome: the shape of every frame and invariant lemma below.
\<close>

definition keeps :: "('s \<Rightarrow> bool) \<Rightarrow> ('s, 'e, 'a) comp \<Rightarrow> bool" where
  "keeps P m \<longleftrightarrow> (\<forall>s. P s \<longrightarrow> P (snd (m s)))"

lemma keepsD: "keeps P m \<Longrightarrow> P s \<Longrightarrow> P (snd (m s))"
  by (simp add: keeps_def)

lemma keeps_ret [simp, intro]: "keeps P (ret a)"
  by (simp add: keeps_def ret_def)

lemma keeps_fail [simp, intro]: "keeps P (fail e)"
  by (simp add: keeps_def fail_def)

lemma keeps_lift_result [simp, intro]: "keeps P (lift_result r)"
  by (simp add: keeps_def lift_result_def)

lemma keeps_bnd [intro]:
  assumes "keeps P m" and "\<And>a. keeps P (f a)"
  shows "keeps P (bnd m f)"
  using assms unfolding keeps_def bnd_def
  by (fastforce split: prod.splits sum.splits)

lemma keeps_ignore [intro]: "keeps P m \<Longrightarrow> keeps P (ignore m)"
  by (simp add: keeps_def ignore_def)

lemma keeps_if [intro]: "keeps P m \<Longrightarrow> keeps P n \<Longrightarrow> keeps P (if b then m else n)"
  by simp

lemma keeps_option [intro]:
  "keeps P m \<Longrightarrow> (\<And>a. keeps P (f a)) \<Longrightarrow> keeps P (case x of None \<Rightarrow> m | Some a \<Rightarrow> f a)"
  by (simp split: option.splits)

lemmas keeps_intros = keeps_bnd keeps_if keeps_option keeps_ret keeps_fail keeps_lift_result keeps_ignore

text \<open>Results without a state: the next step runs on the value of the one before.\<close>

definition andThen :: "'e + 'a \<Rightarrow> ('a \<Rightarrow> 'e + 'b) \<Rightarrow> 'e + 'b" where
  "andThen r f = (case r of Inl e \<Rightarrow> Inl e | Inr a \<Rightarrow> f a)"

lemma andThen_Inr [simp]: "andThen (Inr a) f = f a"
  by (simp add: andThen_def)

lemma andThen_Inl [simp]: "andThen (Inl e) f = Inl e"
  by (simp add: andThen_def)

lemma andThen_InrE:
  assumes "andThen r f = Inr b"
  obtains a where "r = Inr a" and "f a = Inr b"
  using assms by (auto simp: andThen_def split: sum.splits)

section \<open>Lists, association lists and options\<close>

lemma find_Some_iff_hd: "find P xs = Some x \<Longrightarrow> P x \<and> x \<in> set xs"
  by (auto simp: find_Some_iff)

lemma find_eq_the_unique:
  assumes "x \<in> set xs" and "P x" and "\<And>y. y \<in> set xs \<Longrightarrow> P y \<Longrightarrow> y = x"
  shows "find P xs = Some x"
proof -
  have "find P xs \<noteq> None" using assms(1,2) by (auto simp: find_None_iff)
  then obtain y where y: "find P xs = Some y" by auto
  then show ?thesis using assms(3) [of y] by (auto dest: find_Some_iff_hd)
qed

lemma find_append: "find P (xs @ ys) = (case find P xs of None \<Rightarrow> find P ys | Some x \<Rightarrow> Some x)"
  by (induction xs) auto

lemma find_map: "find P (map f xs) = map_option f (find (P \<circ> f) xs)"
  by (induction xs) auto

lemma map_of_update [simp]: "map_of (AList.update k v al) = (map_of al)(k \<mapsto> v)"
  by (rule ext) (simp add: update_conv')

lemma mset_eq_set: "mset xs = mset ys \<Longrightarrow> set xs = set ys"
  by (metis set_mset_mset)

lemma dropWhile_eq_self_hd: "xs \<noteq> [] \<Longrightarrow> \<not> P (hd xs) \<Longrightarrow> dropWhile P xs = xs"
  by (cases xs) auto

end
