(* ===== verification/Json.thy ===== *)
theory Json
  imports GoLib
begin

text \<open>
  What the sources use of Go's \<open>encoding/json\<close>: the text of a document (\<open>Marshal\<close>), the
  parser behind \<open>Unmarshal\<close>, and the rules that decode a document into struct fields, slices
  and maps. Strings are bytes; \<open>Marshal\<close> escapes as Go 1.22 does (HTML characters included)
  and both directions replace invalid UTF-8 by U+FFFD. Main result: a string of valid UTF-8
  is read back unchanged.
\<close>

datatype json =
  JNull | JBool bool | JNum string | JStr string | JArr "json list" | JObj "(string \<times> json) list"

section \<open>UTF-8\<close>

abbreviation byte :: "char \<Rightarrow> nat" where
  "byte c \<equiv> of_char c"

definition conts :: "nat \<Rightarrow> string \<Rightarrow> bool" where
  "conts n bs \<longleftrightarrow> n \<le> length bs \<and> list_all (\<lambda>b. 128 \<le> byte b \<and> byte b \<le> 191) (take n bs)"

text \<open>The length of the valid encoding at the front of a string; 0 where there is none.\<close>

fun utf8_len :: "string \<Rightarrow> nat" where
  "utf8_len [] = 0"
| "utf8_len (c # cs) =
     (let x = byte c in
      if x < 128 then 1
      else if 194 \<le> x \<and> x \<le> 223 \<and> conts 1 cs then 2
      else if 224 \<le> x \<and> x \<le> 239 \<and> conts 2 cs \<and> (x = 224 \<longrightarrow> 160 \<le> byte (cs ! 0))
        \<and> (x = 237 \<longrightarrow> byte (cs ! 0) \<le> 159) then 3
      else if 240 \<le> x \<and> x \<le> 244 \<and> conts 3 cs \<and> (x = 240 \<longrightarrow> 144 \<le> byte (cs ! 0))
        \<and> (x = 244 \<longrightarrow> byte (cs ! 0) \<le> 143) then 4
      else 0)"

declare utf8_len.simps [simp del]

function utf8_ok :: "string \<Rightarrow> bool" where
  "utf8_ok s =
     (if s = [] then True else if utf8_len s = 0 then False else utf8_ok (drop (utf8_len s) s))"
  by pat_completeness auto
termination
  by (relation "measure length") auto

declare utf8_ok.simps [simp del]

definition replacement :: string where
  "replacement = [CHR 0xEF, CHR 0xBF, CHR 0xBD]"

definition enc_rune :: "nat \<Rightarrow> string" where
  "enc_rune r =
     (if r < 128 then [char_of r]
      else if r < 2048 then [char_of (192 + r div 64), char_of (128 + r mod 64)]
      else if r < 65536 then
        [char_of (224 + r div 4096), char_of (128 + r div 64 mod 64), char_of (128 + r mod 64)]
      else [char_of (240 + r div 262144), char_of (128 + r div 4096 mod 64),
            char_of (128 + r div 64 mod 64), char_of (128 + r mod 64)])"

section \<open>Marshal\<close>

abbreviation quote_char :: char where "quote_char \<equiv> CHR 0x22"
abbreviation backslash :: char where "backslash \<equiv> CHR 0x5C"

definition hex_digit :: "nat \<Rightarrow> char" where
  "hex_digit d = (if d < 10 then char_of (48 + d) else char_of (87 + d))"

definition enc_ascii :: "char \<Rightarrow> string" where
  "enc_ascii c =
     (if c = quote_char \<or> c = backslash then [backslash, c]
      else if c = CHR 0x08 then [backslash, CHR ''b'']
      else if c = CHR 0x0C then [backslash, CHR ''f'']
      else if c = CHR 0x0A then [backslash, CHR ''n'']
      else if c = CHR 0x0D then [backslash, CHR ''r'']
      else if c = CHR 0x09 then [backslash, CHR ''t'']
      else if byte c < 32 \<or> c \<in> {CHR ''<'', CHR ''>'', CHR ''&''} then
        backslash # ''u00'' @ [hex_digit (byte c div 16), hex_digit (byte c mod 16)]
      else [c])"

function enc_body :: "string \<Rightarrow> string" where
  "enc_body s =
     (case s of
        [] \<Rightarrow> []
      | c # cs \<Rightarrow>
          if byte c < 128 then enc_ascii c @ enc_body cs
          else if utf8_len s = 0 then backslash # ''ufffd'' @ enc_body cs
          else if take 3 s = [CHR 0xE2, CHR 0x80, CHR 0xA8] then backslash # ''u2028'' @ enc_body (drop 3 s)
          else if take 3 s = [CHR 0xE2, CHR 0x80, CHR 0xA9] then backslash # ''u2029'' @ enc_body (drop 3 s)
          else take (utf8_len s) s @ enc_body (drop (utf8_len s) s))"
  by pat_completeness auto
termination
  by (relation "measure length") auto

declare enc_body.simps [simp del]

definition marshal_string :: "string \<Rightarrow> string" where
  "marshal_string s = quote_char # enc_body s @ [quote_char]"

fun marshal :: "json \<Rightarrow> string" where
  "marshal JNull = ''null''"
| "marshal (JBool b) = (if b then ''true'' else ''false'')"
| "marshal (JNum lit) = lit"
| "marshal (JStr s) = marshal_string s"
| "marshal (JArr xs) = ''['' @ Join (map marshal xs) '','' @ '']''"
| "marshal (JObj kvs) =
     ''{'' @ Join (map (\<lambda>(k, v). marshal_string k @ '':'' @ marshal v) kvs) '','' @ ''}''"

text \<open>A Go map is written with its keys in increasing order.\<close>

definition jmap :: "(string \<times> json) list \<Rightarrow> json" where
  "jmap kvs = JObj (sort_key fst (AList.clearjunk kvs))"

section \<open>The parser\<close>

definition hex_val :: "char \<Rightarrow> nat option" where
  "hex_val c =
     (if 48 \<le> byte c \<and> byte c \<le> 57 then Some (byte c - 48)
      else if 97 \<le> byte c \<and> byte c \<le> 102 then Some (byte c - 87)
      else if 65 \<le> byte c \<and> byte c \<le> 70 then Some (byte c - 55)
      else None)"

fun hex4 :: "string \<Rightarrow> (nat \<times> string) option" where
  "hex4 (a # b # c # d # r) =
     (case (hex_val a, hex_val b, hex_val c, hex_val d) of
        (Some w, Some x, Some y, Some z) \<Rightarrow> Some (4096 * w + 256 * x + 16 * y + z, r)
      | _ \<Rightarrow> None)"
| "hex4 _ = None"

text \<open>
  The bytes an escape stands for and the text after it, from the text after \<open>\u\<close>. A lone or
  mismatched surrogate is the replacement character; its partner, if any, is read again.
\<close>

definition dec_u :: "string \<Rightarrow> (string \<times> string) option" where
  "dec_u s =
     (case hex4 s of
        None \<Rightarrow> None
      | Some (u, r) \<Rightarrow>
          if 55296 \<le> u \<and> u < 57344 then
            (case (if HasPrefix r [backslash, CHR ''u''] then hex4 (drop 2 r) else None) of
               Some (v, r') \<Rightarrow>
                 if u < 56320 \<and> 56320 \<le> v \<and> v < 57344
                 then Some (enc_rune (65536 + (u - 55296) * 1024 + (v - 56320)), r')
                 else Some (replacement, r)
             | None \<Rightarrow> Some (replacement, r))
          else Some (enc_rune u, r))"

definition simple_escape :: "char \<Rightarrow> char option" where
  "simple_escape e =
     (if e \<in> {quote_char, backslash, CHR ''/''} then Some e
      else if e = CHR ''b'' then Some (CHR 0x08)
      else if e = CHR ''f'' then Some (CHR 0x0C)
      else if e = CHR ''n'' then Some (CHR 0x0A)
      else if e = CHR ''r'' then Some (CHR 0x0D)
      else if e = CHR ''t'' then Some (CHR 0x09)
      else None)"

definition cons_str :: "string \<Rightarrow> (string \<times> string) option \<Rightarrow> (string \<times> string) option" where
  "cons_str pre r = map_option (\<lambda>(s, rest). (pre @ s, rest)) r"

lemma hex4_shorter: "hex4 s = Some (u, r) \<Longrightarrow> length r < length s"
  by (induction s rule: hex4.induct) (auto split: option.splits)

lemma dec_u_shorter: "dec_u s = Some (t, r) \<Longrightarrow> length r < length s"
  by (auto simp: dec_u_def HasPrefix_def dest!: hex4_shorter split: option.splits if_splits)

text \<open>The contents of a string literal, from the text after its opening quote.\<close>

function dec_str :: "string \<Rightarrow> (string \<times> string) option" where
  "dec_str s =
     (case s of
        [] \<Rightarrow> None
      | c # cs \<Rightarrow>
          if c = quote_char then Some ([], cs)
          else if c = backslash then
            (case cs of
               [] \<Rightarrow> None
             | e # r \<Rightarrow>
                 if e = CHR ''u'' then
                   (case dec_u r of None \<Rightarrow> None | Some (t, r') \<Rightarrow> cons_str t (dec_str r'))
                 else
                   (case simple_escape e of None \<Rightarrow> None | Some d \<Rightarrow> cons_str [d] (dec_str r)))
          else if byte c < 32 then None
          else if utf8_len s = 0 then cons_str replacement (dec_str cs)
          else cons_str (take (utf8_len s) s) (dec_str (drop (utf8_len s) s)))"
  by pat_completeness auto
termination
  by (relation "measure length") (auto dest: dec_u_shorter)

declare dec_str.simps [simp del]

definition skip_ws :: "string \<Rightarrow> string" where
  "skip_ws = dropWhile (\<lambda>c. c \<in> {CHR '' '', CHR 0x09, CHR 0x0A, CHR 0x0D})"

text \<open>A number literal at the front of a text, with the text after it.\<close>

definition number_prefix :: "string \<Rightarrow> (string \<times> string) option" where
  "number_prefix s =
     (let (sign, s1) = (if HasPrefix s ''-'' then (''-'', drop 1 s) else ('''', s));
          ds = takeWhile is_digit s1;
          ip = (if HasPrefix ds ''0'' then ''0'' else ds);
          s2 = drop (length ip) s1;
          (frac, s3) = (if HasPrefix s2 ''.''
             then (CHR ''.'' # takeWhile is_digit (drop 1 s2), dropWhile is_digit (drop 1 s2)) else ('''', s2));
          exp = (if s3 \<noteq> [] \<and> hd s3 \<in> {CHR ''e'', CHR ''E''} then
                   (let sg = (if tl s3 \<noteq> [] \<and> hd (tl s3) \<in> {CHR ''+'', CHR ''-''} then [hd (tl s3)] else []);
                        body = drop (1 + length sg) s3
                    in Some (hd s3 # sg, takeWhile is_digit body, dropWhile is_digit body))
                 else None)
      in if ip = [] \<or> frac = ''.'' then None
         else case exp of
           None \<Rightarrow> Some (sign @ ip @ frac, s3)
         | Some (e, eds, s4) \<Rightarrow> if eds = [] then None else Some (sign @ ip @ frac @ e @ eds, s4))"

text \<open>
  The document grammar, by recursive descent. Every call consumes a character or returns, so
  a fuel of one more than twice the length of the text is never used up.
\<close>

fun parse_value :: "nat \<Rightarrow> string \<Rightarrow> (json \<times> string) option"
  and parse_elems :: "nat \<Rightarrow> string \<Rightarrow> (json list \<times> string) option"
  and parse_members :: "nat \<Rightarrow> string \<Rightarrow> ((string \<times> json) list \<times> string) option" where
  "parse_value 0 s = None"
| "parse_value (Suc f) s =
     (case skip_ws s of
        [] \<Rightarrow> None
      | c # cs \<Rightarrow>
          if c = quote_char then map_option (\<lambda>(t, r). (JStr t, r)) (dec_str cs)
          else if c = CHR ''['' then
            (if HasPrefix (skip_ws cs) '']'' then Some (JArr [], drop 1 (skip_ws cs))
             else map_option (\<lambda>(xs, r). (JArr xs, r)) (parse_elems f cs))
          else if c = CHR ''{'' then
            (if HasPrefix (skip_ws cs) ''}'' then Some (JObj [], drop 1 (skip_ws cs))
             else map_option (\<lambda>(kvs, r). (JObj kvs, r)) (parse_members f cs))
          else if HasPrefix (c # cs) ''true'' then Some (JBool True, drop 4 (c # cs))
          else if HasPrefix (c # cs) ''false'' then Some (JBool False, drop 5 (c # cs))
          else if HasPrefix (c # cs) ''null'' then Some (JNull, drop 4 (c # cs))
          else map_option (\<lambda>(lit, r). (JNum lit, r)) (number_prefix (c # cs)))"
| "parse_elems 0 s = None"
| "parse_elems (Suc f) s =
     (case parse_value f s of
        None \<Rightarrow> None
      | Some (x, r) \<Rightarrow>
          (case skip_ws r of
             [] \<Rightarrow> None
           | d # r' \<Rightarrow>
               if d = CHR '']'' then Some ([x], r')
               else if d = CHR '','' then map_option (\<lambda>(xs, r''). (x # xs, r'')) (parse_elems f r')
               else None))"
| "parse_members 0 s = None"
| "parse_members (Suc f) s =
     (case skip_ws s of
        [] \<Rightarrow> None
      | q # s1 \<Rightarrow>
          if q \<noteq> quote_char then None
          else case dec_str s1 of
            None \<Rightarrow> None
          | Some (k, s2) \<Rightarrow>
              (case skip_ws s2 of
                 [] \<Rightarrow> None
               | co # s3 \<Rightarrow>
                   if co \<noteq> CHR '':'' then None
                   else case parse_value f s3 of
                     None \<Rightarrow> None
                   | Some (v, r) \<Rightarrow>
                       (case skip_ws r of
                          [] \<Rightarrow> None
                        | d # r' \<Rightarrow>
                            if d = CHR ''}'' then Some ([(k, v)], r')
                            else if d = CHR '','' then
                              map_option (\<lambda>(kvs, r''). ((k, v) # kvs, r'')) (parse_members f r')
                            else None)))"

text \<open>A whole document: nothing but white space may follow the value.\<close>

definition parse_json :: "string \<Rightarrow> json option" where
  "parse_json s =
     (case parse_value (2 * length s + 1) s of
        Some (v, r) \<Rightarrow> if skip_ws r = [] then Some v else None
      | None \<Rightarrow> None)"

section \<open>Decoding into Go values\<close>

text \<open>
  A key of an object selects the struct field whose name it equals up to case folding; ASCII
  letters fold, and so do U+212A (Kelvin sign) and U+017F (long s).
\<close>

definition fold_char :: "char \<Rightarrow> char" where
  "fold_char c = (if 97 \<le> byte c \<and> byte c \<le> 122 then char_of (byte c - 32) else c)"

fun fold_name :: "string \<Rightarrow> string" where
  "fold_name [] = []"
| "fold_name (c # cs) =
     (if take 3 (c # cs) = [CHR 0xE2, CHR 0x84, CHR 0xAA] then CHR ''K'' # fold_name (drop 2 cs)
      else if take 2 (c # cs) = [CHR 0xC5, CHR 0xBF] then CHR ''S'' # fold_name (drop 1 cs)
      else fold_char c # fold_name cs)"

definition field_vals :: "string \<Rightarrow> (string \<times> json) list \<Rightarrow> json list" where
  "field_vals name kvs = map snd (filter (\<lambda>(k, v). fold_name k = fold_name name) kvs)"

text \<open>
  Decoding one value into a variable that holds \<open>old\<close>: \<open>null\<close> leaves it unchanged and a
  value of another type is an error (\<open>None\<close>).
\<close>

definition into_string :: "string \<Rightarrow> json \<Rightarrow> string option" where
  "into_string old v = (case v of JStr s \<Rightarrow> Some s | JNull \<Rightarrow> Some old | _ \<Rightarrow> None)"

definition into_int64 :: "int \<Rightarrow> json \<Rightarrow> int option" where
  "into_int64 old v =
     (case v of JNum lit \<Rightarrow> (case Atoi lit of Inr n \<Rightarrow> Some n | Inl _ \<Rightarrow> None)
      | JNull \<Rightarrow> Some old | _ \<Rightarrow> None)"

definition into_bool :: "bool \<Rightarrow> json \<Rightarrow> bool option" where
  "into_bool old v = (case v of JBool b \<Rightarrow> Some b | JNull \<Rightarrow> Some old | _ \<Rightarrow> None)"

text \<open>All the values a document gives one field, in order; any mismatch is an error.\<close>

fun into_field :: "('v \<Rightarrow> json \<Rightarrow> 'v option) \<Rightarrow> 'v \<Rightarrow> json list \<Rightarrow> 'v option" where
  "into_field into old [] = Some old"
| "into_field into old (v # vs) =
     (case into old v of None \<Rightarrow> None | Some new \<Rightarrow> into_field into new vs)"

definition into_string_slice :: "string list \<Rightarrow> json \<Rightarrow> string list option" where
  "into_string_slice old v =
     (case v of
        JArr xs \<Rightarrow> those (map (into_string '''') xs)
      | JNull \<Rightarrow> Some []
      | _ \<Rightarrow> None)"

definition into_int64_slice :: "int list \<Rightarrow> json \<Rightarrow> int list option" where
  "into_int64_slice old v =
     (case v of JArr xs \<Rightarrow> those (map (into_int64 0) xs) | JNull \<Rightarrow> Some [] | _ \<Rightarrow> None)"

text \<open>\<open>map[string]string\<close>: a later entry for a key replaces an earlier one.\<close>

definition into_string_map :: "(string \<times> string) list \<Rightarrow> json \<Rightarrow> (string \<times> string) list option" where
  "into_string_map old v =
     (case v of
        JObj kvs \<Rightarrow>
          (case those (map (\<lambda>(k, x). map_option (Pair k) (into_string '''' x)) kvs) of
             None \<Rightarrow> None
           | Some new \<Rightarrow> Some (fold (\<lambda>(k, x). AList.update k x) new old))
      | JNull \<Rightarrow> Some []
      | _ \<Rightarrow> None)"

text \<open>\<open>json.Marshal\<close> and \<open>json.Unmarshal\<close> of a \<open>[]string\<close>.\<close>

definition marshal_strings :: "string list \<Rightarrow> string" where
  "marshal_strings xs = marshal (JArr (map JStr xs))"

definition unmarshal_strings :: "string \<Rightarrow> string list option" where
  "unmarshal_strings s = (case parse_json s of None \<Rightarrow> None | Some v \<Rightarrow> into_string_slice [] v)"

section \<open>Round trip of strings\<close>

lemma cons_str_Some [simp]: "cons_str pre (Some (s, r)) = Some (pre @ s, r)"
  by (simp add: cons_str_def)

lemma hex_val_hex_digit [simp]: "d < 16 \<Longrightarrow> hex_val (hex_digit d) = Some d"
  by (auto simp: hex_val_def hex_digit_def)

lemma byte_div_16: "byte c div 16 < 16"
  by (rule less_mult_imp_div_less) simp

lemma dec_u_byte: "byte c < 128 \<Longrightarrow> dec_u (''00'' @ [hex_digit (byte c div 16), hex_digit (byte c mod 16)] @ r) = Some ([c], r)"
  using byte_div_16 [of c] by (simp add: dec_u_def enc_rune_def) (simp add: hex_val_def enc_rune_def)

lemma dec_str_escape:
  "simple_escape e = Some d \<Longrightarrow> e \<noteq> CHR ''u'' \<Longrightarrow>
    dec_str (backslash # e # r) = cons_str [d] (dec_str r)"
  by (subst dec_str.simps) simp

lemma dec_str_u: "dec_u r = Some (t, r') \<Longrightarrow> dec_str (backslash # CHR ''u'' # r) = cons_str t (dec_str r')"
  by (subst dec_str.simps) simp

lemma utf8_len_ascii: "byte c < 128 \<Longrightarrow> utf8_len (c # cs) = 1"
  by (simp add: utf8_len.simps)

lemma dec_str_plain:
  assumes "c \<noteq> quote_char" "c \<noteq> backslash" "32 \<le> byte c" "byte c < 128"
  shows "dec_str (c # r) = cons_str [c] (dec_str r)"
  using assms by (subst dec_str.simps) (simp add: utf8_len_ascii)

lemma dec_str_ascii: "byte c < 128 \<Longrightarrow> dec_str (enc_ascii c @ r) = cons_str [c] (dec_str r)"
  using dec_u_byte [of c r]
  by (auto simp: enc_ascii_def dec_str_plain dec_str_u dec_str_escape simple_escape_def)

lemma conts_append: "conts n bs \<Longrightarrow> conts n (take n bs @ r)"
  by (simp add: conts_def)

lemma utf8_len_le: "utf8_len s \<le> length s"
  by (cases s) (auto simp: utf8_len.simps conts_def Let_def)

lemma conts_take: "m \<le> n \<Longrightarrow> m \<le> length bs \<Longrightarrow> conts m (take n bs @ r) = conts m bs"
  by (auto simp: conts_def min_def)

lemma utf8_len_take:
  assumes "utf8_len s \<noteq> 0"
  shows "utf8_len (take (utf8_len s) s @ r) = utf8_len s"
proof (cases s)
  case Nil
  with assms show ?thesis by (simp add: utf8_len.simps)
next
  case (Cons c cs)
  have nth: "0 < n \<Longrightarrow> n \<le> length cs \<Longrightarrow> (take n cs @ r) ! 0 = cs ! 0" for n
    by (simp add: nth_append)
  from assms Cons show ?thesis
    by (auto simp: utf8_len.simps Let_def conts_take nth conts_def split: if_splits)
qed

lemma dec_str_multi:
  assumes "utf8_len s \<noteq> 0" "128 \<le> byte (hd s)"
  shows "dec_str (take (utf8_len s) s @ r) = cons_str (take (utf8_len s) s) (dec_str r)"
proof -
  obtain c cs where s: "s = c # cs" using assms(1) by (cases s) (auto simp: utf8_len.simps)
  obtain n where n: "utf8_len s = Suc n" using assms(1) by (cases "utf8_len s") auto
  have c: "c \<noteq> quote_char" "c \<noteq> backslash" "\<not> byte c < 32" using assms(2) s by auto
  have "utf8_len (c # take n cs @ r) = Suc n" using utf8_len_take [OF assms(1), of r] s n by simp
  moreover have "length (take n cs) = n" using utf8_len_le [of s] s n by simp
  ultimately show ?thesis using c s n by (subst dec_str.simps) simp
qed

lemma take3_multi: "utf8_len s \<noteq> 0 \<Longrightarrow> take 3 s = [CHR 0xE2, CHR 0x80, x] \<Longrightarrow> utf8_len s = 3"
  by (cases s) (auto simp: utf8_len.simps conts_def Let_def take_Cons' split: if_splits)

lemma enc_body_dec_str: "utf8_ok s \<Longrightarrow> dec_str (enc_body s @ quote_char # r) = Some (s, r)"
proof (induction s rule: utf8_ok.induct)
  case (1 s)
  show ?case
  proof (cases s)
    case Nil
    then show ?thesis by (simp add: enc_body.simps dec_str.simps)
  next
    case (Cons c cs)
    with "1.prems" have n0: "utf8_len s \<noteq> 0" and ok: "utf8_ok (drop (utf8_len s) s)"
      using utf8_ok.simps [of s] by (auto split: if_splits)
    have "s \<noteq> []" using Cons by simp
    note IH = "1.IH" [OF this n0 ok]
    consider (ascii) "byte c < 128"
      | (ls) "\<not> byte c < 128" "take 3 s = [CHR 0xE2, CHR 0x80, CHR 0xA8]"
      | (ps) "\<not> byte c < 128" "take 3 s = [CHR 0xE2, CHR 0x80, CHR 0xA9]"
      | (other) "\<not> byte c < 128" "take 3 s \<noteq> [CHR 0xE2, CHR 0x80, CHR 0xA8]"
          "take 3 s \<noteq> [CHR 0xE2, CHR 0x80, CHR 0xA9]" by blast
    then show ?thesis
    proof cases
      case ascii
      with Cons IH show ?thesis
        by (simp add: enc_body.simps [of "c # cs"] utf8_len_ascii dec_str_ascii)
    next
      case ls
      have "enc_body s = backslash # ''u2028'' @ enc_body (drop 3 s)"
        using ls n0 Cons by (subst enc_body.simps) simp
      moreover have "dec_u (''2028'' @ t) = Some (take 3 s, t)" for t
        unfolding ls(2) by (simp add: dec_u_def hex_val_def enc_rune_def char_of_def bit_iff_odd)
      ultimately show ?thesis using IH take3_multi [OF n0 ls(2)] by (simp add: dec_str_u)
    next
      case ps
      have "enc_body s = backslash # ''u2029'' @ enc_body (drop 3 s)"
        using ps n0 Cons by (subst enc_body.simps) simp
      moreover have "dec_u (''2029'' @ t) = Some (take 3 s, t)" for t
        unfolding ps(2) by (simp add: dec_u_def hex_val_def enc_rune_def char_of_def bit_iff_odd)
      ultimately show ?thesis using IH take3_multi [OF n0 ps(2)] by (simp add: dec_str_u)
    next
      case other
      have enc: "enc_body s = take (utf8_len s) s @ enc_body (drop (utf8_len s) s)"
        using other n0 Cons by (subst enc_body.simps) auto
      have "128 \<le> byte (hd s)" using other(1) Cons by simp
      from dec_str_multi [OF n0 this] IH show ?thesis by (simp add: enc)
    qed
  qed
qed

lemma skip_ws_non_ws [simp]:
  "c \<notin> {CHR '' '', CHR 0x09, CHR 0x0A, CHR 0x0D} \<Longrightarrow> skip_ws (c # s) = c # s"
  by (simp add: skip_ws_def)

lemma skip_ws_Nil [simp]: "skip_ws [] = []"
  by (simp add: skip_ws_def)

lemma parse_value_string:
  "utf8_ok s \<Longrightarrow> parse_value (Suc f) (marshal_string s @ r) = Some (JStr s, r)"
  by (simp add: marshal_string_def enc_body_dec_str)

lemma parse_elems_strings:
  "\<lbrakk> \<forall>s \<in> set (x # xs). utf8_ok s; length xs < f \<rbrakk> \<Longrightarrow>
   parse_elems (Suc f) (Join (map marshal_string (x # xs)) '','' @ CHR '']'' # r) =
     Some (map JStr (x # xs), r)"
proof (induction xs arbitrary: x f)
  case Nil
  then obtain g where "f = Suc g" by (cases f) auto
  with Nil show ?case by (simp add: parse_value_string del: parse_value.simps)
next
  case (Cons y ys)
  then obtain g where g: "f = Suc g" by (cases f) auto
  have "parse_elems (Suc g) (Join (map marshal_string (y # ys)) '','' @ CHR '']'' # r) =
     Some (map JStr (y # ys), r)" using Cons g by (intro Cons.IH) auto
  with Cons.prems g show ?case by (simp add: parse_value_string del: parse_value.simps)
qed

lemma length_Join: "length xs \<le> Suc (length (Join (map f xs) '',''))"
  by (induction xs rule: induct_list012) auto

lemma parse_json_strings:
  assumes "\<forall>s \<in> set xs. utf8_ok s"
  shows "parse_json (marshal_strings xs) = Some (JArr (map JStr xs))"
proof (cases xs)
  case Nil
  then show ?thesis
    by (simp add: parse_json_def marshal_strings_def HasPrefix_def numeral_eq_Suc)
next
  case (Cons x ys)
  let ?body = "Join (map marshal_string xs) '','' @ '']''"
  have fuel: "length ys < 2 * length (''['' @ ?body) - 1"
    using length_Join [of xs marshal_string] Cons by simp
  have "\<exists>t. ?body = quote_char # t"
    using Cons by (cases ys) (auto simp: marshal_string_def)
  then have hd: "\<not> HasPrefix (skip_ws ?body) '']''"
    by (auto simp: HasPrefix_def)
  have "parse_elems (2 * length (''['' @ ?body)) ?body = Some (map JStr xs, [])"
    using parse_elems_strings [of x ys "2 * length (''['' @ ?body) - 1" "[]"] assms fuel Cons
    by (simp del: parse_elems.simps)
  with hd have "parse_value (Suc (2 * length (''['' @ ?body))) (''['' @ ?body) = Some (JArr (map JStr xs), [])"
    by simp
  then show ?thesis
    by (simp add: parse_json_def marshal_strings_def comp_def del: parse_value.simps)
qed

lemma those_map_Some [simp]: "those (map Some xs) = Some xs"
  by (induction xs) auto

theorem unmarshal_marshal_strings:
  "\<forall>s \<in> set xs. utf8_ok s \<Longrightarrow> unmarshal_strings (marshal_strings xs) = Some xs"
  by (simp add: unmarshal_strings_def parse_json_strings into_string_slice_def comp_def into_string_def)

lemma utf8_ok_ascii [simp]: "list_all (\<lambda>c. byte c < 128) s \<Longrightarrow> utf8_ok s"
proof (induction s)
  case Nil
  show ?case by (simp add: utf8_ok.simps)
next
  case (Cons c cs)
  then show ?case by (subst utf8_ok.simps) (simp add: utf8_len_ascii)
qed

end
