(* ===== verification/Store.thy ===== *)
theory Store
  imports Json
begin

text \<open>
  Model of \<open>internal/store\<close>: the job state machine, the SQLite tables of \<open>schema.sql\<close>, and
  every operation of \<open>store.go\<close> on them. The SQL statements of the source are the functions
  of the section on statements; the driver behind them is represented by what the code can
  observe of it: each driver call may fail (\<open>faults\<close>), each reading of the clock returns some
  time (\<open>clock\<close>), and the engine visits the rows of a table in some order (\<open>scan\<close>).
\<close>

section \<open>States and transitions\<close>

text \<open>The Go type is a string; a value outside the eight constants is possible.\<close>

type_synonym State = string

definition StatePending :: State where "StatePending = ''pending''"
definition StateRunning :: State where "StateRunning = ''running''"
definition StateCheckpointing :: State where "StateCheckpointing = ''checkpointing''"
definition StateCompleted :: State where "StateCompleted = ''completed''"
definition StateFailed :: State where "StateFailed = ''failed''"
definition StateCancelled :: State where "StateCancelled = ''cancelled''"
definition StateInterruptedResumable :: State where
  "StateInterruptedResumable = ''interrupted_resumable''"
definition StateInterruptedUnresumable :: State where
  "StateInterruptedUnresumable = ''interrupted_unresumable''"

lemmas state_defs = StatePending_def StateRunning_def StateCheckpointing_def StateCompleted_def
  StateFailed_def StateCancelled_def StateInterruptedResumable_def StateInterruptedUnresumable_def

definition IsTerminal :: "State \<Rightarrow> bool" where
  "IsTerminal s \<longleftrightarrow>
     s \<in> set [StateCompleted, StateFailed, StateCancelled, StateInterruptedUnresumable]"

definition validTransitions :: "(State \<times> State list) list" where
  "validTransitions =
     [(StatePending,
        [StateRunning, StateCancelled, StateFailed, StateInterruptedUnresumable]),
      (StateRunning,
        [StateRunning, StateCheckpointing, StateCompleted, StateFailed, StateCancelled,
         StateInterruptedResumable, StateInterruptedUnresumable]),
      (StateCheckpointing,
        [StateRunning, StateCheckpointing, StateCompleted, StateFailed, StateCancelled,
         StateInterruptedResumable, StateInterruptedUnresumable]),
      (StateInterruptedResumable,
        [StateRunning, StateInterruptedUnresumable, StateCancelled]),
      (StateCompleted, [StateCompleted]),
      (StateFailed, [StateFailed]),
      (StateCancelled, [StateCancelled]),
      (StateInterruptedUnresumable, [StateInterruptedUnresumable])]"

definition IsValidTransition :: "State \<Rightarrow> State \<Rightarrow> bool" where
  "IsValidTransition from to \<longleftrightarrow>
     (if from = to then True
      else case map_of validTransitions from of
        None \<Rightarrow> False
      | Some m \<Rightarrow> to \<in> set m)"

section \<open>Errors, rows and jobs\<close>

datatype store_error =
  ErrNotFound | ErrInvalidTransition State State | DbError string | ErrDecodeArgs

text \<open>A value of a column; the columns' types agree with the values the code binds to them.\<close>

datatype sqlval = Null | Integer int | Text string

text \<open>A row of \<open>jobs\<close>: the value of every column, by name.\<close>

type_synonym row = "string \<Rightarrow> sqlval"

record event_row =
  ev_id :: int
  ev_job_id :: string
  ev_type :: string
  ev_payload :: string
  ev_recorded_at :: int

record database =
  job_cols :: "string list"
  jobs :: "row list"
  job_events :: "event_row list"
  event_seq :: int
  wal_marker :: int

record Job =
  job_ID :: string
  job_Image :: string
  job_Command :: string
  job_Args :: "string list"
  job_State :: State
  job_CreatedAt :: nanos
  job_StartedAt :: "nanos option"
  job_FinishedAt :: "nanos option"
  job_ExitCode :: "int option"
  job_LastCheckpointAt :: "nanos option"
  job_LastCheckpointPath :: "string option"
  job_LastCheckpointEpoch :: "int option"
  job_LastCheckpointFound :: "int option"
  job_ContainerID :: "string option"
  job_ControllerPID :: "int option"
  job_StateVolumePath :: "string option"
  job_AssignedControllerID :: "string option"

record Event =
  event_ID :: int
  event_JobID :: string
  event_EventType :: string
  event_Payload :: string
  event_RecordedAt :: nanos

text \<open>The two modes of \<open>PRAGMA wal_checkpoint\<close> the code uses.\<close>

datatype wal_mode = PASSIVE | FULL

text \<open>
  The open store: its tables, its clock (the \<open>n\<close>-th reading returns \<open>clock n\<close>) and its
  driver (the \<open>n\<close>-th call fails with \<open>e\<close> where \<open>faults n = Some e\<close>). \<open>pragmas\<close> lists the
  write-ahead-log checkpoints the code has asked for.
\<close>

record Store =
  db :: database
  clock :: "nat \<Rightarrow> nanos"
  ticks :: nat
  faults :: "nat \<Rightarrow> string option"
  calls :: nat
  scan :: "row list \<Rightarrow> row list"
  pragmas :: "wal_mode list"

type_synonym 'a store_op = "(Store, store_error, 'a) comp"

section \<open>Driver calls, statements and transactions\<close>

definition driver_call :: "unit store_op" where
  "driver_call s =
     (case faults s (calls s) of
        None \<Rightarrow> (Inr (), s\<lparr>calls := Suc (calls s)\<rparr>)
      | Some e \<Rightarrow> (Inl (DbError e), s\<lparr>calls := Suc (calls s)\<rparr>))"

definition read_clock :: "nanos store_op" where
  "read_clock s = (Inr (clock s (ticks s)), s\<lparr>ticks := Suc (ticks s)\<rparr>)"

definition get_db :: "database store_op" where
  "get_db s = (Inr (db s), s)"

definition put_db :: "database \<Rightarrow> unit store_op" where
  "put_db d s = (Inr (), s\<lparr>db := d\<rparr>)"

text \<open>\<open>time.Time.UnixNano\<close>: the nanoseconds as an \<open>int64\<close>; \<open>time.Unix(0, v)\<close> is \<open>v\<close>.\<close>

definition UnixNano :: "nanos \<Rightarrow> int" where
  "UnixNano t = wrap64 t"

text \<open>
  \<open>tx := BeginTx(); defer rollback(tx); ...; tx.Commit()\<close>: an error of the body or of the
  commit leaves the tables as they were when the transaction began.
\<close>

definition with_tx :: "'a store_op \<Rightarrow> 'a store_op" where
  "with_tx body =
     bnd driver_call (\<lambda>_ s.
       case bnd body (\<lambda>a. bnd driver_call (\<lambda>_. ret a)) s of
         (Inl e, s') \<Rightarrow> (Inl e, s'\<lparr>db := db s\<rparr>)
       | (Inr a, s') \<Rightarrow> (Inr a, s'))"

definition job_columns :: "string list" where
  "job_columns =
     [''id'', ''image'', ''command'', ''args_json'', ''state'', ''created_at'', ''started_at'',
      ''finished_at'', ''exit_code'', ''last_checkpoint_at'', ''last_checkpoint_path'',
      ''last_checkpoint_epoch'', ''last_checkpoint_found'', ''container_id'', ''controller_pid'',
      ''state_volume_path'', ''assigned_controller_id'']"

text \<open>The columns that are never NULL; the key is always bound to a string.\<close>

definition not_null_columns :: "string list" where
  "not_null_columns = [''id'', ''image'', ''command'', ''args_json'', ''state'', ''created_at'']"

definition has_id :: "string \<Rightarrow> row \<Rightarrow> bool" where
  "has_id i r \<longleftrightarrow> r ''id'' = Text i"

definition find_job :: "string \<Rightarrow> database \<Rightarrow> row option" where
  "find_job i d = find (has_id i) (jobs d)"

text \<open>\<open>INSERT INTO jobs\<close>: the columns not given are NULL; the primary key is unique.\<close>

definition insert_job :: "(string \<times> sqlval) list \<Rightarrow> unit store_op" where
  "insert_job vals =
     bnd driver_call (\<lambda>_. bnd get_db (\<lambda>d.
       let new = (\<lambda>c. case map_of vals c of None \<Rightarrow> Null | Some v \<Rightarrow> v) in
       if list_ex (\<lambda>r. r ''id'' = new ''id'') (jobs d)
       then fail (DbError ''UNIQUE constraint failed: jobs.id'')
       else put_db (d\<lparr>jobs := jobs d @ [new]\<rparr>)))"

text \<open>\<open>UPDATE jobs SET ... WHERE id = ?\<close>, returning the number of rows it changed.\<close>

definition update_row :: "(string \<times> sqlval) list \<Rightarrow> row \<Rightarrow> row" where
  "update_row sets r = (\<lambda>c. case map_of sets c of None \<Rightarrow> r c | Some v \<Rightarrow> v)"

definition update_job :: "string \<Rightarrow> (string \<times> sqlval) list \<Rightarrow> nat store_op" where
  "update_job i sets =
     bnd driver_call (\<lambda>_. bnd get_db (\<lambda>d.
       if list_ex (\<lambda>(c, v). c \<notin> set (job_cols d)) sets then fail (DbError ''no such column'')
       else if list_ex (has_id i) (jobs d) \<and> list_ex (\<lambda>c. map_of sets c = Some Null) not_null_columns
       then fail (DbError ''NOT NULL constraint failed'')
       else if list_ex (has_id i) (jobs d) \<and>
         list_ex (\<lambda>r. \<not> has_id i r \<and> map_of sets ''id'' = Some (r ''id'')) (jobs d)
       then fail (DbError ''UNIQUE constraint failed: jobs.id'')
       else bnd (put_db (d\<lparr>jobs := map (\<lambda>r. if has_id i r then update_row sets r else r) (jobs d)\<rparr>))
         (\<lambda>_. ret (length (filter (has_id i) (jobs d))))))"

text \<open>\<open>PRAGMA wal_checkpoint(...)\<close> changes no table.\<close>

definition wal_checkpoint :: "wal_mode \<Rightarrow> unit store_op" where
  "wal_checkpoint mode s = driver_call (s\<lparr>pragmas := pragmas s @ [mode]\<rparr>)"

definition set_wal_marker :: "int \<Rightarrow> unit store_op" where
  "set_wal_marker v = bnd driver_call (\<lambda>_. bnd get_db (\<lambda>d. put_db (d\<lparr>wal_marker := v\<rparr>)))"

definition insertEvent :: "string \<Rightarrow> string \<Rightarrow> json \<Rightarrow> nanos \<Rightarrow> unit store_op" where
  "insertEvent jobID eventType payload ts =
     bnd driver_call (\<lambda>_. bnd get_db (\<lambda>d.
       put_db (d\<lparr>job_events := job_events d @
           [\<lparr>ev_id = event_seq d + 1, ev_job_id = jobID, ev_type = eventType,
             ev_payload = marshal payload, ev_recorded_at = UnixNano ts\<rparr>],
         event_seq := event_seq d + 1\<rparr>)))"

section \<open>Opening the database\<close>

text \<open>
  The file before \<open>Open\<close>: nothing, or a database whose \<open>jobs\<close> table has some columns.
  \<open>schema.sql\<close> creates what does not exist; the migration adds the column
  \<open>assigned_controller_id\<close> and a \<open>duplicate column\<close> error of it counts as success.
\<close>

definition fresh_database :: database where
  "fresh_database =
     \<lparr>job_cols = job_columns, jobs = [], job_events = [], event_seq = 0, wal_marker = 0\<rparr>"

definition schemaSQL :: "database option \<Rightarrow> database" where
  "schemaSQL disk = (case disk of None \<Rightarrow> fresh_database | Some d \<Rightarrow> d)"

definition alter_add_column :: "string \<Rightarrow> database \<Rightarrow> string + database" where
  "alter_add_column c d =
     (if c \<in> set (job_cols d) then Inl (''duplicate column name: '' @ c)
      else Inr (d\<lparr>job_cols := job_cols d @ [c], jobs := map (\<lambda>r. r(c := Null)) (jobs d)\<rparr>))"

definition ensureDir :: "(string \<Rightarrow> string option) \<Rightarrow> string \<Rightarrow> string option" where
  "ensureDir mkdirAll p =
     (let dir = Dir p in if dir = '''' \<or> dir = ''.'' then None else mkdirAll dir)"

text \<open>
  \<open>store.Open\<close>: \<open>mkdirAll\<close> is the outcome of \<open>os.MkdirAll\<close> (an error or none); the fields of
  \<open>env\<close> other than \<open>db\<close> are the clock and the driver. Driver calls: opening the file, the
  schema, the migration.
\<close>

definition migrate :: "Store \<Rightarrow> string + Store" where
  "migrate s1 =
     (case driver_call s1 of
        (Inl (DbError e), s2) \<Rightarrow>
          if \<not> Contains e ''duplicate column'' then Inl ''migrate assigned_controller_id'' else Inr s2
      | (Inl _, s2) \<Rightarrow> Inl ''migrate assigned_controller_id''
      | (Inr _, s2) \<Rightarrow>
          (case alter_add_column ''assigned_controller_id'' (db s2) of
             Inl e \<Rightarrow> if \<not> Contains e ''duplicate column''
               then Inl ''migrate assigned_controller_id'' else Inr s2
           | Inr d \<Rightarrow> Inr (s2\<lparr>db := d\<rparr>)))"

definition Open :: "(string \<Rightarrow> string option) \<Rightarrow> string \<Rightarrow> database option \<Rightarrow> Store \<Rightarrow> string + Store" where
  "Open mkdirAll path disk env =
     (case (if path \<noteq> '':memory:'' then ensureDir mkdirAll path else None) of
        Some e \<Rightarrow> Inl e
      | None \<Rightarrow>
          (case driver_call env of
             (Inl e, _) \<Rightarrow> Inl ''open sqlite''
           | (Inr _, s0) \<Rightarrow>
               (case driver_call (s0\<lparr>db := schemaSQL disk\<rparr>) of
                  (Inl e, _) \<Rightarrow> Inl ''apply schema''
                | (Inr _, s1) \<Rightarrow> migrate s1)))"

section \<open>Reading rows\<close>

text \<open>
  \<open>Rows.Scan\<close> into a \<open>string\<close>, an \<open>int64\<close> and their nullable forms, with the conversions of
  \<open>database/sql\<close>.
\<close>

definition scan_string :: "sqlval \<Rightarrow> store_error + string" where
  "scan_string v =
     (case v of Text t \<Rightarrow> Inr t | Integer n \<Rightarrow> Inr (Itoa n)
      | Null \<Rightarrow> Inl (DbError ''converting NULL to string is unsupported''))"

definition scan_int64 :: "sqlval \<Rightarrow> store_error + int" where
  "scan_int64 v =
     (case v of
        Integer n \<Rightarrow> Inr n
      | Text t \<Rightarrow> (case Atoi t of Inr n \<Rightarrow> Inr n | Inl _ \<Rightarrow> Inl (DbError ''converting to int64''))
      | Null \<Rightarrow> Inl (DbError ''converting NULL to int64 is unsupported''))"

definition scan_null_string :: "sqlval \<Rightarrow> store_error + string option" where
  "scan_null_string v = (if v = Null then Inr None else map_sum id Some (scan_string v))"

definition scan_null_int64 :: "sqlval \<Rightarrow> store_error + int option" where
  "scan_null_int64 v = (if v = Null then Inr None else map_sum id Some (scan_int64 v))"

definition scanJob :: "row \<Rightarrow> store_error + Job" where
  "scanJob r =
     andThen (scan_string (r ''id'')) (\<lambda>ident.
     andThen (scan_string (r ''image'')) (\<lambda>image.
     andThen (scan_null_string (r ''command'')) (\<lambda>command.
     andThen (scan_string (r ''args_json'')) (\<lambda>argsJSON.
     andThen (scan_string (r ''state'')) (\<lambda>state.
     andThen (scan_int64 (r ''created_at'')) (\<lambda>createdAt.
     andThen (scan_null_int64 (r ''started_at'')) (\<lambda>startedAt.
     andThen (scan_null_int64 (r ''finished_at'')) (\<lambda>finishedAt.
     andThen (scan_null_int64 (r ''exit_code'')) (\<lambda>exitCode.
     andThen (scan_null_int64 (r ''last_checkpoint_at'')) (\<lambda>ckptAt.
     andThen (scan_null_string (r ''last_checkpoint_path'')) (\<lambda>ckptPath.
     andThen (scan_null_int64 (r ''last_checkpoint_epoch'')) (\<lambda>ckptEpoch.
     andThen (scan_null_int64 (r ''last_checkpoint_found'')) (\<lambda>ckptFound.
     andThen (scan_null_string (r ''container_id'')) (\<lambda>containerID.
     andThen (scan_null_int64 (r ''controller_pid'')) (\<lambda>controllerPID.
     andThen (scan_null_string (r ''state_volume_path'')) (\<lambda>volumePath.
     andThen (scan_null_string (r ''assigned_controller_id'')) (\<lambda>assignedCtl.
       case unmarshal_strings argsJSON of
         None \<Rightarrow> Inl ErrDecodeArgs
       | Some args \<Rightarrow> Inr
           \<lparr>job_ID = ident, job_Image = image,
            job_Command = (case command of None \<Rightarrow> '''' | Some c \<Rightarrow> c),
            job_Args = args, job_State = state, job_CreatedAt = createdAt,
            job_StartedAt = startedAt, job_FinishedAt = finishedAt, job_ExitCode = exitCode,
            job_LastCheckpointAt = ckptAt, job_LastCheckpointPath = ckptPath,
            job_LastCheckpointEpoch = ckptEpoch, job_LastCheckpointFound = ckptFound,
            job_ContainerID = containerID, job_ControllerPID = controllerPID,
            job_StateVolumePath = volumePath, job_AssignedControllerID = assignedCtl\<rparr>)))))))))))))))))"

text \<open>The loop \<open>for rows.Next() { scanJob }\<close>: the first row that does not scan ends it.\<close>

fun scanJobs :: "row list \<Rightarrow> store_error + Job list" where
  "scanJobs [] = Inr []"
| "scanJobs (r # rs) = andThen (scanJob r) (\<lambda>j. andThen (scanJobs rs) (\<lambda>js. Inr (j # js)))"

section \<open>The operations\<close>

text \<open>\<open>Store.CreateJob\<close>: the statements inside its transaction, then the whole operation.\<close>

definition job_values :: "Job \<Rightarrow> State \<Rightarrow> nanos \<Rightarrow> (string \<times> sqlval) list" where
  "job_values j state createdAt =
     [(''id'', Text (job_ID j)), (''image'', Text (job_Image j)),
      (''command'', Text (job_Command j)), (''args_json'', Text (marshal_strings (job_Args j))),
      (''state'', Text state), (''created_at'', Integer (UnixNano createdAt))]"

definition create_tx :: "Job \<Rightarrow> State \<Rightarrow> nanos \<Rightarrow> unit store_op" where
  "create_tx j state createdAt =
     bnd (insert_job (job_values j state createdAt)) (\<lambda>_.
     bnd read_clock (\<lambda>ts.
     insertEvent (job_ID j) ''created'' (jmap [(''state'', JStr state)]) ts))"

definition CreateJob :: "Job \<Rightarrow> unit store_op" where
  "CreateJob j =
     (let state = (if job_State j = '''' then StatePending else job_State j) in
      bnd (if job_CreatedAt j = zero_time then read_clock else ret (job_CreatedAt j)) (\<lambda>createdAt.
      bnd (with_tx (create_tx j state createdAt)) (\<lambda>_.
      ignore (wal_checkpoint PASSIVE))))"

text \<open>\<open>Store.GetJob\<close>.\<close>

definition GetJob :: "string \<Rightarrow> Job store_op" where
  "GetJob i =
     bnd driver_call (\<lambda>_. bnd get_db (\<lambda>d.
       case find_job i d of None \<Rightarrow> fail ErrNotFound | Some r \<Rightarrow> lift_result (scanJob r)))"

text \<open>
  \<open>Store.ListJobs\<close>. A comparison with the NULL of an unknown cursor selects no row; rows with
  equal \<open>created_at\<close> come in the order the engine visits them.
\<close>

definition created_at :: "row \<Rightarrow> int" where
  "created_at r = (case r ''created_at'' of Integer n \<Rightarrow> n | _ \<Rightarrow> 0)"

definition list_where :: "State \<Rightarrow> string \<Rightarrow> database \<Rightarrow> row \<Rightarrow> bool" where
  "list_where state afterID d r \<longleftrightarrow>
     (state \<noteq> '''' \<longrightarrow> r ''state'' = Text state) \<and>
     (afterID \<noteq> '''' \<longrightarrow>
        (case find_job afterID d of None \<Rightarrow> False | Some c \<Rightarrow> created_at r < created_at c))"

definition list_query :: "State \<Rightarrow> string \<Rightarrow> nat \<Rightarrow> (row list \<Rightarrow> row list) \<Rightarrow> database \<Rightarrow> row list" where
  "list_query state afterID lim sc d =
     take lim (sort_key (\<lambda>r. - created_at r) (filter (list_where state afterID d) (sc (jobs d))))"

definition page_limit :: "int \<Rightarrow> nat" where
  "page_limit limit = (if limit \<le> 0 \<or> limit > 200 then 50 else nat limit)"

definition ListJobs :: "State \<Rightarrow> string \<Rightarrow> int \<Rightarrow> (Job list \<times> string) store_op" where
  "ListJobs state afterID limit =
     (let lim = page_limit limit in
      bnd driver_call (\<lambda>_ s.
        bnd (lift_result (scanJobs (list_query state afterID (lim + 1) (scan s) (db s)))) (\<lambda>out.
          if length out > lim then ret (take lim out, job_ID (out ! (lim - 1))) else ret (out, '''')) s))"

type_synonym updates = "(string \<times> sqlval) list"

text \<open>A setter of the source is a sequence of assignments \<open>u[k] = v\<close> to the updates map.\<close>

definition assigns :: "(string \<times> sqlval) list \<Rightarrow> updates \<Rightarrow> updates" where
  "assigns kvs u = fold (\<lambda>(k, v). AList.update k v) kvs u"

fun sqlval_json :: "sqlval \<Rightarrow> json" where
  "sqlval_json Null = JNull"
| "sqlval_json (Integer n) = JNum (Itoa n)"
| "sqlval_json (Text t) = JStr t"

definition redactedUpdates :: "updates \<Rightarrow> updates" where
  "redactedUpdates u =
     filter (\<lambda>(k, v). k \<in> set [''state'', ''exit_code'', ''container_id'', ''last_checkpoint_epoch'',
       ''last_checkpoint_found'', ''started_at'', ''finished_at'', ''assigned_controller_id'']) u"

text \<open>The time stamp column that \<open>Transition\<close> sets for the target state, if no setter did.\<close>

definition stamp :: "State \<Rightarrow> updates \<Rightarrow> updates store_op" where
  "stamp next u =
     (if next = StateRunning then
        (if map_of u ''started_at'' = None
         then bnd read_clock (\<lambda>t. ret (AList.update ''started_at'' (Integer (UnixNano t)) u)) else ret u)
      else if next \<in> set [StateCompleted, StateFailed, StateCancelled, StateInterruptedUnresumable] then
        (if map_of u ''finished_at'' = None
         then bnd read_clock (\<lambda>t. ret (AList.update ''finished_at'' (Integer (UnixNano t)) u)) else ret u)
      else ret u)"

definition transition_payload :: "State \<Rightarrow> State \<Rightarrow> updates \<Rightarrow> json" where
  "transition_payload cur next u =
     jmap [(''from'', JStr cur), (''to'', JStr next),
       (''updates'', jmap (map (\<lambda>(k, v). (k, sqlval_json v)) (redactedUpdates u)))]"

text \<open>\<open>SELECT state FROM jobs WHERE id = ?\<close>\<close>

definition select_state :: "string \<Rightarrow> State store_op" where
  "select_state i =
     bnd driver_call (\<lambda>_. bnd get_db (\<lambda>d.
       case find_job i d of None \<Rightarrow> fail ErrNotFound | Some r \<Rightarrow> lift_result (scan_string (r ''state''))))"

definition transition_tx :: "string \<Rightarrow> State \<Rightarrow> (updates \<Rightarrow> updates) list \<Rightarrow> unit store_op" where
  "transition_tx i next setters =
     bnd (select_state i) (\<lambda>cur.
     if \<not> IsValidTransition cur next then fail (ErrInvalidTransition cur next)
     else bnd (stamp next (fold (\<lambda>f u. f u) setters [(''state'', Text next)])) (\<lambda>updates.
     bnd (update_job i updates) (\<lambda>_.
     bnd read_clock (\<lambda>ts.
     insertEvent i ''transition'' (transition_payload cur next updates) ts))))"

text \<open>
  The boundary checkpoint after the commit: \<open>FULL\<close> for a terminal state and \<open>PASSIVE\<close>
  otherwise, and the marker only where the checkpoint succeeded. Neither can fail the call.
\<close>

definition boundary_checkpoint :: "State \<Rightarrow> unit store_op" where
  "boundary_checkpoint next s =
     (case wal_checkpoint (if IsTerminal next then FULL else PASSIVE) s of
        (Inl e, s') \<Rightarrow> (Inr (), s')
      | (Inr _, s') \<Rightarrow> ignore (bnd read_clock (\<lambda>t. set_wal_marker (UnixNano t))) s')"

text \<open>\<open>Store.Transition\<close>.\<close>

definition Transition :: "string \<Rightarrow> State \<Rightarrow> (updates \<Rightarrow> updates) list \<Rightarrow> unit store_op" where
  "Transition i next setters =
     bnd (with_tx (transition_tx i next setters)) (\<lambda>_. boundary_checkpoint next)"

text \<open>\<open>Store.RecordCheckpoint\<close>.\<close>

definition checkpoint_updates :: "nanos \<Rightarrow> int \<Rightarrow> int \<Rightarrow> string \<Rightarrow> updates" where
  "checkpoint_updates now epoch found path =
     [(''last_checkpoint_at'', Integer (UnixNano now)), (''last_checkpoint_path'', Text path),
      (''last_checkpoint_epoch'', Integer epoch), (''last_checkpoint_found'', Integer found)]"

definition checkpoint_payload :: "int \<Rightarrow> int \<Rightarrow> string \<Rightarrow> json" where
  "checkpoint_payload epoch found path =
     jmap [(''epoch'', JNum (Itoa epoch)), (''found'', JNum (Itoa found)), (''path'', JStr path)]"

definition RecordCheckpoint :: "string \<Rightarrow> int \<Rightarrow> int \<Rightarrow> string \<Rightarrow> unit store_op" where
  "RecordCheckpoint i epoch found path =
     bnd read_clock (\<lambda>now.
     with_tx
       (bnd (update_job i (checkpoint_updates now epoch found path)) (\<lambda>n.
        if n = 0 then fail ErrNotFound
        else bnd read_clock (\<lambda>ts.
          insertEvent i ''checkpoint'' (checkpoint_payload epoch found path) ts))))"

text \<open>\<open>Store.LastWALCheckpoint\<close>: the zero time where nothing has been recorded.\<close>

definition LastWALCheckpoint :: "nanos store_op" where
  "LastWALCheckpoint =
     bnd driver_call (\<lambda>_. bnd get_db (\<lambda>d.
       ret (if wal_marker d = 0 then zero_time else wal_marker d)))"

definition Ping :: "unit store_op" where
  "Ping = driver_call"

text \<open>\<open>Store.RecentEvents\<close>: newest first.\<close>

definition event_limit :: "int \<Rightarrow> nat" where
  "event_limit limit = (if limit \<le> 0 \<or> limit > 200 then 25 else nat limit)"

definition to_event :: "event_row \<Rightarrow> Event" where
  "to_event e =
     \<lparr>event_ID = ev_id e, event_JobID = ev_job_id e, event_EventType = ev_type e,
      event_Payload = ev_payload e, event_RecordedAt = ev_recorded_at e\<rparr>"

definition RecentEvents :: "string \<Rightarrow> int \<Rightarrow> Event list store_op" where
  "RecentEvents jobID limit =
     bnd driver_call (\<lambda>_. bnd get_db (\<lambda>d.
       ret (map to_event (take (event_limit limit)
         (sort_key (\<lambda>e. - ev_id e) (filter (\<lambda>e. ev_job_id e = jobID) (job_events d)))))))"

text \<open>\<open>Store.JobsInStates\<close>: oldest first; no states, no query.\<close>

definition JobsInStates :: "State list \<Rightarrow> Job list store_op" where
  "JobsInStates states =
     (if states = [] then ret []
      else bnd driver_call (\<lambda>_ s.
        lift_result (scanJobs (sort_key created_at
          (filter (\<lambda>r. r ''state'' \<in> Text ` set states) (scan s (jobs (db s)))))) s))"

text \<open>\<open>Store.Close\<close>: a \<open>FULL\<close> checkpoint whose error is dropped, then the driver's close.\<close>

definition Close :: "unit store_op" where
  "Close = bnd (ignore (wal_checkpoint FULL)) (\<lambda>_. driver_call)"

end
