(* ===== verification/StoreFacts.thy ===== *)
theory StoreFacts
  imports Store
begin

text \<open>
  The lemma library of the store: what each operation does to the tables, the abstract job
  life cycle and the interface of a life-cycle log that the store implements, the invariant of
  the tables, the audit trail, and the properties of the queries.
\<close>

section \<open>The job table as seen by a reader\<close>

definition state_of :: "database \<Rightarrow> string \<Rightarrow> State option" where
  "state_of d i =
     (case find_job i d of
        Some r \<Rightarrow> (case scan_string (r ''state'') of Inr t \<Rightarrow> Some t | Inl _ \<Rightarrow> None)
      | None \<Rightarrow> None)"

text \<open>The row operations, on the table alone.\<close>

definition set_job :: "string \<Rightarrow> updates \<Rightarrow> database \<Rightarrow> database" where
  "set_job i u d = d\<lparr>jobs := map (\<lambda>r. if has_id i r then update_row u r else r) (jobs d)\<rparr>"

definition add_event :: "string \<Rightarrow> string \<Rightarrow> json \<Rightarrow> nanos \<Rightarrow> database \<Rightarrow> database" where
  "add_event i ty payload ts d =
     d\<lparr>job_events := job_events d @
         [\<lparr>ev_id = event_seq d + 1, ev_job_id = i, ev_type = ty,
           ev_payload = marshal payload, ev_recorded_at = UnixNano ts\<rparr>],
       event_seq := event_seq d + 1\<rparr>"

section \<open>Steps of a computation\<close>

lemma driver_call_cases:
  obtains (ok) "driver_call s = (Inr (), s\<lparr>calls := Suc (calls s)\<rparr>)"
  | (err) e where "driver_call s = (Inl (DbError e), s\<lparr>calls := Suc (calls s)\<rparr>)"
  by (cases "faults s (calls s)") (auto simp: driver_call_def)

lemma driver_call_Inr: "driver_call s = (Inr x, s') \<Longrightarrow> s' = s\<lparr>calls := Suc (calls s)\<rparr>"
  by (auto simp: driver_call_def split: option.splits)

lemma db_driver_call [simp]: "db (snd (driver_call s)) = db s"
  by (simp add: driver_call_def split: option.splits)

lemma db_read_clock [simp]: "db (snd (read_clock s)) = db s"
  by (simp add: read_clock_def)

text \<open>
  A transaction either fails and leaves the tables as they were, or its body succeeded and
  its tables are committed.
\<close>

lemma with_tx_cases:
  assumes "with_tx body s = (r, s')"
  obtains (rolled_back) e where "r = Inl e" and "db s' = db s"
  | (committed) a s1 s2 where "r = Inr a" and "db s1 = db s"
      and "body s1 = (Inr a, s2)" and "db s' = db s2"
      and "s1 = s\<lparr>calls := Suc (calls s)\<rparr>" and "s' = s2\<lparr>calls := Suc (calls s2)\<rparr>"
proof (cases r)
  case (Inl e)
  with assms have "db s' = db s"
    by (auto simp: with_tx_def bnd_def ret_def driver_call_def split: prod.splits sum.splits option.splits)
  with Inl rolled_back show ?thesis by blast
next
  case (Inr a)
  with assms obtain s2 where s2: "body (s\<lparr>calls := Suc (calls s)\<rparr>) = (Inr a, s2)" and "s' = s2\<lparr>calls := Suc (calls s2)\<rparr>"
    by (auto simp: with_tx_def bnd_def ret_def driver_call_def split: prod.splits sum.splits option.splits)
  then show ?thesis using committed [OF Inr _ s2(1)] by simp
qed

lemma with_tx_atomic: "with_tx body s = (Inl e, s') \<Longrightarrow> db s' = db s"
  by (erule with_tx_cases) auto

lemma update_job_Inr:
  assumes "update_job i u s = (Inr n, s')"
  shows "db s' = set_job i u (db s)" and "n = length (filter (has_id i) (jobs (db s)))"
    and "ticks s' = ticks s" and "clock s' = clock s"
  using assms
  by (auto simp: update_job_def bnd_def get_db_def put_db_def fail_def ret_def set_job_def driver_call_def
      split: option.splits if_splits prod.splits)

lemma insertEvent_Inr:
  assumes "insertEvent i ty p ts s = (Inr x, s')"
  shows "db s' = add_event i ty p ts (db s)"
  using assms
  by (auto simp: insertEvent_def bnd_def get_db_def put_db_def add_event_def driver_call_def split: option.splits)

lemma select_state_Inr:
  assumes "select_state i s = (Inr cur, s')"
  obtains r where "find_job i (db s) = Some r" and "scan_string (r ''state'') = Inr cur" and "db s' = db s"
    and "ticks s' = ticks s" and "clock s' = clock s"
  using assms
  by (auto simp: select_state_def bnd_def get_db_def fail_def lift_result_def driver_call_def split: option.splits)

text \<open>The time stamp column of a target state, and the assignment \<open>stamp\<close> makes to it.\<close>

definition stamp_column :: "State \<Rightarrow> string option" where
  "stamp_column next =
     (if next = StateRunning then Some ''started_at''
      else if IsTerminal next then Some ''finished_at'' else None)"

definition stamp_kvs :: "State \<Rightarrow> updates \<Rightarrow> nanos \<Rightarrow> updates" where
  "stamp_kvs next u t =
     (case stamp_column next of
        None \<Rightarrow> []
      | Some c \<Rightarrow> if map_of u c = None then [(c, Integer (UnixNano t))] else [])"

lemma stamp_Inr:
  assumes "stamp next u s = (Inr u', s')"
  shows "db s' = db s" and "u' = assigns (stamp_kvs next u (clock s (ticks s))) u"
  using assms
  by (auto simp: stamp_def bnd_def read_clock_def ret_def assigns_def stamp_kvs_def stamp_column_def
      IsTerminal_def split: if_splits)

lemma boundary_checkpoint_db:
  assumes "boundary_checkpoint next s = (r, s')"
  shows "r = Inr ()" and "\<exists>v. db s' = (db s)\<lparr>wal_marker := v\<rparr>"
  using assms
  by (auto simp: boundary_checkpoint_def wal_checkpoint_def ignore_def bnd_def read_clock_def set_wal_marker_def
      get_db_def put_db_def driver_call_def split: prod.splits sum.splits option.splits)
     (metis database.surjective database.update_convs(5))+

section \<open>What Transition does\<close>

text \<open>
  The setters of the code write \<open>container_id\<close>, \<open>controller_pid\<close>, \<open>state_volume_path\<close>,
  \<open>assigned_controller_id\<close> and \<open>exit_code\<close>; a setter is benign when it leaves the other
  columns alone.
\<close>

definition setter_columns :: "string list" where
  "setter_columns =
     [''container_id'', ''controller_pid'', ''state_volume_path'', ''assigned_controller_id'', ''exit_code'']"

definition protected_columns :: "string list" where
  "protected_columns = filter (\<lambda>c. c \<notin> set setter_columns) job_columns"

definition benign :: "(updates \<Rightarrow> updates) \<Rightarrow> bool" where
  "benign f \<longleftrightarrow> (\<forall>u. \<forall>c \<in> set protected_columns. map_of (f u) c = map_of u c)"

lemma map_of_assigns: "map_of (assigns kvs u) = map_of u ++ map_of (rev kvs)"
proof (induction kvs arbitrary: u)
  case Nil
  then show ?case by (simp add: assigns_def)
next
  case (Cons kv kvs)
  have "assigns (kv # kvs) u = assigns kvs (AList.update (fst kv) (snd kv) u)"
    by (simp add: assigns_def case_prod_beta)
  with Cons show ?case by (simp add: map_add_def fun_eq_iff split: option.splits)
qed

lemma map_of_assigns_other: "k \<notin> fst ` set kvs \<Longrightarrow> map_of (assigns kvs u) k = map_of u k"
  by (simp add: map_of_assigns map_add_def map_of_eq_None_iff split: option.splits) 
     (metis fst_conv image_eqI map_of_SomeD set_rev)

lemma benign_assigns [simp]:
  "\<forall>c \<in> set protected_columns. c \<notin> fst ` set kvs \<Longrightarrow> benign (assigns kvs)"
  by (simp add: benign_def map_of_assigns_other)

lemma fold_benign:
  assumes "\<forall>f \<in> set fs. benign f" and "c \<in> set protected_columns"
  shows "map_of (fold (\<lambda>f u. f u) fs u) c = map_of u c"
  using assms by (induction fs arbitrary: u) (auto simp: benign_def)

lemma protected_simps [simp]:
  "''id'' \<in> set protected_columns" "''state'' \<in> set protected_columns"
  "''started_at'' \<in> set protected_columns" "''finished_at'' \<in> set protected_columns"
  "''created_at'' \<in> set protected_columns" "''last_checkpoint_at'' \<in> set protected_columns"
  "''args_json'' \<in> set protected_columns" "''image'' \<in> set protected_columns"
  "''last_checkpoint_path'' \<in> set protected_columns" "''last_checkpoint_epoch'' \<in> set protected_columns"
  "''last_checkpoint_found'' \<in> set protected_columns"
  by (simp_all add: protected_columns_def setter_columns_def job_columns_def)

lemma Transition_Inr:
  assumes "Transition i next fs s = (Inr x, s')"
  obtains r cur t u ts v where "find_job i (db s) = Some r" and "scan_string (r ''state'') = Inr cur"
    and "IsValidTransition cur next" and "t = clock s (ticks s)"
    and "u = assigns (stamp_kvs next (fold (\<lambda>f u. f u) fs [(''state'', Text next)]) t)
      (fold (\<lambda>f u. f u) fs [(''state'', Text next)])"
    and "db s' = (add_event i ''transition'' (transition_payload cur next u) ts (set_job i u (db s)))\<lparr>wal_marker := v\<rparr>"
proof -
  from assms obtain y sa where tx: "with_tx (transition_tx i next fs) s = (Inr y, sa)"
    and bc: "boundary_checkpoint next sa = (Inr x, s')"
    unfolding Transition_def by (rule bnd_InrE)
  from boundary_checkpoint_db(2) [OF bc] obtain v where v: "db s' = (db sa)\<lparr>wal_marker := v\<rparr>" by blast
  from tx show thesis
  proof (cases rule: with_tx_cases)
    case (committed a s1 s2)
    from committed(3) obtain cur s3 where sel: "select_state i s1 = (Inr cur, s3)"
      and rest: "(if \<not> IsValidTransition cur next then fail (ErrInvalidTransition cur next)
        else bnd (stamp next (fold (\<lambda>f u. f u) fs [(''state'', Text next)])) (\<lambda>updates.
          bnd (update_job i updates) (\<lambda>_. bnd read_clock (\<lambda>ts.
          insertEvent i ''transition'' (transition_payload cur next updates) ts)))) s3 = (Inr a, s2)"
      unfolding transition_tx_def by (rule bnd_InrE)
    from rest have valid: "IsValidTransition cur next" by (auto simp: fail_def split: if_splits)
    with rest obtain u s4 n s5 ts s6 where st: "stamp next (fold (\<lambda>f u. f u) fs [(''state'', Text next)]) s3 = (Inr u, s4)"
      and up: "update_job i u s4 = (Inr n, s5)" and rc: "read_clock s5 = (Inr ts, s6)"
      and ie: "insertEvent i ''transition'' (transition_payload cur next u) ts s6 = (Inr a, s2)"
      by (auto elim!: bnd_InrE)
    from rc have "db s6 = db s5" by (auto simp: read_clock_def)
    with insertEvent_Inr [OF ie] update_job_Inr(1) [OF up] stamp_Inr(1) [OF st]
    have d: "db s2 = add_event i ''transition'' (transition_payload cur next u) ts (set_job i u (db s3))" by simp
    from sel obtain r where r: "find_job i (db s1) = Some r" "scan_string (r ''state'') = Inr cur" "db s3 = db s1"
      "ticks s3 = ticks s1" "clock s3 = clock s1" by (rule select_state_Inr)
    have t: "clock s3 (ticks s3) = clock s (ticks s)" using r committed(5) by simp
    note kvs = stamp_Inr(2) [OF st, unfolded t]
    from r committed have q: "find_job i (db s) = Some r" by simp
    from r committed v d have
      "db s' = (add_event i ''transition'' (transition_payload cur next u) ts (set_job i u (db s)))\<lparr>wal_marker := v\<rparr>"
      by simp
    then show thesis by (rule that [OF q r(2) valid refl kvs])
  qed simp
qed

lemma Transition_Inl_db: "Transition i next fs s = (Inl e, s') \<Longrightarrow> db s' = db s"
  unfolding Transition_def
  by (erule bnd_InlE) (auto dest: with_tx_atomic boundary_checkpoint_db(1))

section \<open>Reading after writing\<close>

lemma has_id_unique: "has_id i r \<Longrightarrow> has_id j r \<Longrightarrow> i = j"
  by (simp add: has_id_def)

lemma find_job_has_id: "find_job i d = Some r \<Longrightarrow> has_id i r \<and> r \<in> set (jobs d)"
  by (auto simp: find_job_def dest: find_Some_iff_hd)

lemma find_job_set_job:
  assumes "map_of u ''id'' = None"
  shows "find_job j (set_job i u d) = map_option (if i = j then update_row u else id) (find_job j d)"
proof -
  have id: "has_id j (if has_id i r then update_row u r else r) = has_id j r" for r
    using assms by (simp add: has_id_def update_row_def)
  have "find_job j (set_job i u d) = map_option (\<lambda>r. if has_id i r then update_row u r else r) (find_job j d)"
    by (simp add: find_job_def set_job_def find_map comp_def id)
  then show ?thesis by (cases "find_job j d") (auto dest!: find_job_has_id dest: has_id_unique)
qed

lemma find_job_frame [simp]:
  "find_job i (add_event j ty p ts d) = find_job i d"
  "find_job i (d\<lparr>wal_marker := v\<rparr>) = find_job i d"
  by (simp_all add: find_job_def add_event_def)

lemma state_of_frame [simp]:
  "state_of (add_event j ty p ts d) i = state_of d i"
  "state_of (d\<lparr>wal_marker := v\<rparr>) i = state_of d i"
  by (simp_all add: state_of_def)

lemma state_of_set_job:
  assumes "map_of u ''id'' = None" and "map_of u ''state'' = Some (Text next)" and "find_job i d = Some r"
  shows "state_of (set_job i u d) j = (if j = i then Some next else state_of d j)"
  using assms by (auto simp: state_of_def find_job_set_job update_row_def scan_string_def split: option.splits)

lemma state_of_set_job_same:
  assumes "map_of u ''id'' = None" and "map_of u ''state'' = None"
  shows "state_of (set_job i u d) j = state_of d j"
  using assms by (auto simp: state_of_def find_job_set_job update_row_def split: option.splits)

text \<open>\<open>CreateJob\<close> and \<open>RecordCheckpoint\<close>, seen from their effect on the tables.\<close>

definition new_row :: "Job \<Rightarrow> State \<Rightarrow> nanos \<Rightarrow> row" where
  "new_row j st t = (\<lambda>c. case map_of (job_values j st t) c of None \<Rightarrow> Null | Some v \<Rightarrow> v)"

definition initial_state :: "Job \<Rightarrow> State" where
  "initial_state j = (if job_State j = '''' then StatePending else job_State j)"

lemma create_tx_Inr:
  assumes "create_tx j st t s = (Inr x, s')"
  obtains ts where "find_job (job_ID j) (db s) = None"
    and "db s' = add_event (job_ID j) ''created'' (jmap [(''state'', JStr st)]) ts
       ((db s)\<lparr>jobs := jobs (db s) @ [new_row j st t]\<rparr>)"
proof -
  from assms obtain z s1 ts s2 where ins: "insert_job (job_values j st t) s = (Inr z, s1)"
    and rc: "read_clock s1 = (Inr ts, s2)"
    and ie: "insertEvent (job_ID j) ''created'' (jmap [(''state'', JStr st)]) ts s2 = (Inr x, s')"
    unfolding create_tx_def by (elim bnd_InrE)
  from ins have "find_job (job_ID j) (db s) = None"
    and "db s1 = (db s)\<lparr>jobs := jobs (db s) @ [new_row j st t]\<rparr>"
    by (auto simp: insert_job_def bnd_def get_db_def put_db_def fail_def new_row_def find_job_def find_None_iff
        has_id_def list_ex_iff driver_call_def Let_def job_values_def split: option.splits if_splits)
  moreover from rc have "db s2 = db s1" by (auto simp: read_clock_def)
  ultimately show thesis using insertEvent_Inr [OF ie] by (intro that [of ts]) simp_all
qed

lemma CreateJob_Inr:
  assumes "CreateJob j s = (Inr x, s')"
  obtains t ts where "find_job (job_ID j) (db s) = None"
    and "t = (if job_CreatedAt j = zero_time then clock s (ticks s) else job_CreatedAt j)"
    and "db s' = add_event (job_ID j) ''created'' (jmap [(''state'', JStr (initial_state j))]) ts
       ((db s)\<lparr>jobs := jobs (db s) @ [new_row j (initial_state j) t]\<rparr>)"
proof -
  from assms obtain t s1 y s2 where
    clk: "(if job_CreatedAt j = zero_time then read_clock else ret (job_CreatedAt j)) s = (Inr t, s1)"
    and tx: "with_tx (create_tx j (initial_state j) t) s1 = (Inr y, s2)"
    and wal: "(ignore (wal_checkpoint PASSIVE) :: unit store_op) s2 = (Inr x, s')"
    unfolding CreateJob_def Let_def initial_state_def by (elim bnd_InrE)
  have s1: "db s1 = db s" "t = (if job_CreatedAt j = zero_time then clock s (ticks s) else job_CreatedAt j)"
    using clk by (auto simp: read_clock_def ret_def split: if_splits)
  from wal have s': "db s' = db s2" by (auto simp: ignore_def wal_checkpoint_def)
  from tx show thesis
  proof (cases rule: with_tx_cases)
    case (committed a s3 s4)
    from committed(3) obtain ts where "find_job (job_ID j) (db s3) = None"
      and "db s4 = add_event (job_ID j) ''created'' (jmap [(''state'', JStr (initial_state j))]) ts
       ((db s3)\<lparr>jobs := jobs (db s3) @ [new_row j (initial_state j) t]\<rparr>)" by (rule create_tx_Inr)
    with committed s1 s' show thesis by (intro that [of t ts]) simp_all
  qed simp
qed

lemma CreateJob_Inl_db: "CreateJob j s = (Inl e, s') \<Longrightarrow> db s' = db s"
  unfolding CreateJob_def Let_def
  by (auto elim!: bnd_InlE dest!: with_tx_atomic simp: read_clock_def ret_def ignore_def split: if_splits)

lemma RecordCheckpoint_Inr:
  assumes "RecordCheckpoint i epoch found path s = (Inr x, s')"
  obtains now ts r where "find_job i (db s) = Some r" and "now = clock s (ticks s)"
    and "db s' = add_event i ''checkpoint'' (checkpoint_payload epoch found path) ts
       (set_job i (checkpoint_updates now epoch found path) (db s))"
proof -
  from assms obtain now s1 where now: "read_clock s = (Inr now, s1)"
    and tx: "with_tx (bnd (update_job i (checkpoint_updates now epoch found path)) (\<lambda>n.
        if n = 0 then fail ErrNotFound
        else bnd read_clock (\<lambda>ts. insertEvent i ''checkpoint'' (checkpoint_payload epoch found path) ts))) s1 = (Inr x, s')"
    unfolding RecordCheckpoint_def by (rule bnd_InrE)
  have s1: "db s1 = db s" "now = clock s (ticks s)" using now by (auto simp: read_clock_def)
  from tx show thesis
  proof (cases rule: with_tx_cases)
    case (committed a s3 s4)
    from committed(3) obtain n s5 where up: "update_job i (checkpoint_updates now epoch found path) s3 = (Inr n, s5)"
      and rest: "(if n = 0 then fail ErrNotFound
        else bnd read_clock (\<lambda>ts. insertEvent i ''checkpoint'' (checkpoint_payload epoch found path) ts)) s5 = (Inr a, s4)"
      by (rule bnd_InrE)
    from rest have n: "n \<noteq> 0" by (auto simp: fail_def split: if_splits)
    with rest obtain ts s6 where rc: "read_clock s5 = (Inr ts, s6)"
      and ie: "insertEvent i ''checkpoint'' (checkpoint_payload epoch found path) ts s6 = (Inr a, s4)"
      by (auto elim: bnd_InrE)
    from n update_job_Inr(2) [OF up] have "find_job i (db s3) \<noteq> None"
      by (auto simp: find_job_def find_None_iff filter_empty_conv)
    then obtain r where "find_job i (db s3) = Some r" by blast
    moreover from rc have "db s6 = db s5" by (auto simp: read_clock_def)
    ultimately show thesis
      using insertEvent_Inr [OF ie] update_job_Inr(1) [OF up] committed s1
      by (intro that [of r now ts]) simp_all
  qed simp
qed

lemma RecordCheckpoint_Inl_db: "RecordCheckpoint i epoch found path s = (Inl e, s') \<Longrightarrow> db s' = db s"
  unfolding RecordCheckpoint_def
  by (auto elim!: bnd_InlE dest!: with_tx_atomic simp: read_clock_def)

section \<open>The abstract life cycle\<close>

text \<open>
  The state machine as \<open>ARCHITECTURE.md\<close> documents it, on an enumeration: a pending job
  starts, is cancelled, fails or is given up; an active job (running or checkpointing) moves
  between the two, finishes or is interrupted; an interrupted resumable job is resumed,
  cancelled or given up; every state may be entered again from itself.
\<close>

datatype lifecycle = Pending | Running | Checkpointing | Completed | Failed | Cancelled
  | InterruptedResumable | InterruptedUnresumable

definition active :: "lifecycle \<Rightarrow> bool" where
  "active a \<longleftrightarrow> a = Running \<or> a = Checkpointing"

inductive lifecycle_step :: "lifecycle \<Rightarrow> lifecycle \<Rightarrow> bool" where
  stay: "lifecycle_step a a"
| start: "lifecycle_step Pending Running"
| abandon_pending: "b \<in> {Cancelled, Failed, InterruptedUnresumable} \<Longrightarrow> lifecycle_step Pending b"
| work: "active a \<Longrightarrow> active b \<Longrightarrow> lifecycle_step a b"
| finish: "active a \<Longrightarrow> b \<in> {Completed, Failed, Cancelled} \<Longrightarrow> lifecycle_step a b"
| interrupt: "active a \<Longrightarrow> b \<in> {InterruptedResumable, InterruptedUnresumable} \<Longrightarrow> lifecycle_step a b"
| resume: "lifecycle_step InterruptedResumable Running"
| abandon_interrupted: "b \<in> {Cancelled, InterruptedUnresumable} \<Longrightarrow> lifecycle_step InterruptedResumable b"

inductive_cases from_Pending: "lifecycle_step Pending b"
inductive_cases from_InterruptedResumable: "lifecycle_step InterruptedResumable b"

fun state_name :: "lifecycle \<Rightarrow> State" where
  "state_name Pending = StatePending"
| "state_name Running = StateRunning"
| "state_name Checkpointing = StateCheckpointing"
| "state_name Completed = StateCompleted"
| "state_name Failed = StateFailed"
| "state_name Cancelled = StateCancelled"
| "state_name InterruptedResumable = StateInterruptedResumable"
| "state_name InterruptedUnresumable = StateInterruptedUnresumable"

lemma lifecycle_step_iff:
  "lifecycle_step a b \<longleftrightarrow>
     a = b \<or> a = Pending \<and> b \<in> {Running, Cancelled, Failed, InterruptedUnresumable} \<or>
     active a \<and> b \<noteq> Pending \<or>
     a = InterruptedResumable \<and> b \<in> {Running, Cancelled, InterruptedUnresumable}"
  by (cases a; cases b) (auto simp: active_def intro: lifecycle_step.intros elim: lifecycle_step.cases)

text \<open>The eight state strings are pairwise different and not empty.\<close>

lemma state_name_inj [simp]: "state_name a = state_name b \<longleftrightarrow> a = b"
  by (cases a; cases b) (simp_all add: state_defs)

lemma state_name_nonempty [simp]: "state_name a \<noteq> ''''"
  by (cases a) (simp_all add: state_defs)

lemma IsTerminal_state_name:
  "IsTerminal (state_name a) \<longleftrightarrow> a \<in> {Completed, Failed, Cancelled, InterruptedUnresumable}"
  by (cases a) (simp_all add: IsTerminal_def state_defs)

lemma IsValidTransition_state_name:
  "IsValidTransition (state_name a) (state_name b) \<longleftrightarrow> lifecycle_step a b"
  unfolding lifecycle_step_iff
  by (cases a; cases b) (simp_all add: IsValidTransition_def validTransitions_def state_defs active_def)

lemma IsTerminal_cases:
  assumes "IsTerminal a"
  obtains l where "a = state_name l" and "l \<in> {Completed, Failed, Cancelled, InterruptedUnresumable}"
  using assms that [of Completed] that [of Failed] that [of Cancelled] that [of InterruptedUnresumable]
  by (auto simp: IsTerminal_def)

lemma range_state_name:
  "range state_name = {StatePending, StateRunning, StateCheckpointing, StateCompleted, StateFailed,
     StateCancelled, StateInterruptedResumable, StateInterruptedUnresumable}"
proof -
  have "x \<in> {Pending, Running, Checkpointing, Completed, Failed, Cancelled, InterruptedResumable,
      InterruptedUnresumable}" for x
    by (cases x) simp_all
  then have "UNIV = {Pending, Running, Checkpointing, Completed, Failed, Cancelled,
     InterruptedResumable, InterruptedUnresumable}" by blast
  then have "range state_name = state_name ` {Pending, Running, Checkpointing, Completed, Failed, Cancelled,
     InterruptedResumable, InterruptedUnresumable}" by simp
  then show ?thesis by simp
qed

lemma validTransitions_known:
  assumes "map_of validTransitions a = Some m" and "b \<in> set m"
  shows "a \<in> range state_name" and "b \<in> range state_name"
  using map_of_SomeD [OF assms(1)] assms(2)
  unfolding validTransitions_def range_state_name by auto

lemma IsTerminal_simps [simp]:
  "\<not> IsTerminal StatePending" "\<not> IsTerminal StateRunning" "\<not> IsTerminal StateCheckpointing"
  "\<not> IsTerminal StateInterruptedResumable" "IsTerminal StateCompleted" "IsTerminal StateFailed"
  "IsTerminal StateCancelled" "IsTerminal StateInterruptedUnresumable"
  by (simp_all add: IsTerminal_def state_defs)

lemma IsValidTransition_iff:
  "IsValidTransition a b \<longleftrightarrow> a = b \<or> (\<exists>x y. a = state_name x \<and> b = state_name y \<and> lifecycle_step x y)"
proof
  assume v: "IsValidTransition a b"
  show "a = b \<or> (\<exists>x y. a = state_name x \<and> b = state_name y \<and> lifecycle_step x y)"
  proof (cases "a = b")
    case False
    with v obtain m where "map_of validTransitions a = Some m" "b \<in> set m"
      by (auto simp: IsValidTransition_def split: option.splits)
    then obtain x y where "a = state_name x" "b = state_name y" using validTransitions_known by blast
    with v show ?thesis by (auto simp: IsValidTransition_state_name)
  qed simp
next
  assume "a = b \<or> (\<exists>x y. a = state_name x \<and> b = state_name y \<and> lifecycle_step x y)"
  then show "IsValidTransition a b" by (auto simp: IsValidTransition_state_name) (simp add: IsValidTransition_def)
qed

lemma IsValidTransition_refl [simp]: "IsValidTransition a a"
  by (simp add: IsValidTransition_def)

lemma IsTerminal_stays: "IsTerminal a \<Longrightarrow> IsValidTransition a b \<Longrightarrow> b = a"
  by (auto simp: IsValidTransition_iff lifecycle_step_iff active_def)

section \<open>The interface of a life-cycle log\<close>

text \<open>
  What the supervisor, the recovery scan and the API rely on: whatever admissible command is
  run, a job that exists keeps existing and moves along a valid transition or stays. The
  consequences for arbitrary interleavings of commands are proved here once.
\<close>

locale lifecycle_log =
  fixes job_state :: "'s \<Rightarrow> string \<Rightarrow> State option"
    and exec :: "'c \<Rightarrow> 's \<Rightarrow> 's"
    and admissible :: "'c \<Rightarrow> bool"
  assumes exec_step: "admissible c \<Longrightarrow> job_state s i = Some a \<Longrightarrow>
      \<exists>b. job_state (exec c s) i = Some b \<and> IsValidTransition a b"
begin

lemma run_path:
  assumes "\<forall>c \<in> set cs. admissible c" and "job_state s i = Some a"
  shows "\<exists>b. job_state (fold exec cs s) i = Some b \<and> IsValidTransition\<^sup>*\<^sup>* a b"
  using assms
proof (induction cs arbitrary: s a)
  case Nil
  then show ?case by simp
next
  case (Cons c cs)
  then obtain b where "job_state (exec c s) i = Some b" and ab: "IsValidTransition a b"
    using exec_step [of c s i a] by auto
  with Cons.IH [of "exec c s" b] Cons.prems obtain d
    where "job_state (fold exec cs (exec c s)) i = Some d" "IsValidTransition\<^sup>*\<^sup>* b d" by auto
  with ab show ?case by (auto intro: converse_rtranclp_into_rtranclp)
qed

lemma terminal_path: "IsValidTransition\<^sup>*\<^sup>* a b \<Longrightarrow> IsTerminal a \<Longrightarrow> b = a"
  by (induction rule: rtranclp_induct) (auto dest: IsTerminal_stays)

lemma run_terminal:
  assumes "\<forall>c \<in> set cs. admissible c" and "job_state s i = Some a" and "IsTerminal a"
  shows "job_state (fold exec cs s) i = Some a"
  using run_path [OF assms(1,2)] terminal_path assms(3) by blast

lemma pending_path: "IsValidTransition\<^sup>*\<^sup>* a b \<Longrightarrow> b = StatePending \<Longrightarrow> a = StatePending"
proof (induction rule: converse_rtranclp_induct)
  case (step y z)
  then have "IsValidTransition y StatePending" by simp
  moreover have "StatePending = state_name Pending" by simp
  ultimately show ?case by (metis IsValidTransition_iff lifecycle_step_iff state_name_inj insertE emptyE lifecycle.distinct)
qed simp

lemma run_never_pending_again:
  assumes "\<forall>c \<in> set cs. admissible c" and "job_state s i = Some a" and "a \<noteq> StatePending"
  shows "job_state (fold exec cs s) i \<noteq> Some StatePending"
  using run_path [OF assms(1,2)] pending_path assms(3) by fastforce

end

section \<open>The store implements the interface\<close>

text \<open>The operations that write, as commands, so that a history is a list of commands.\<close>

datatype store_cmd =
  CCreate Job
| CTransition string State "(updates \<Rightarrow> updates) list"
| CCheckpoint string int int string

fun exec_cmd :: "store_cmd \<Rightarrow> Store \<Rightarrow> Store" where
  "exec_cmd (CCreate j) s = snd (CreateJob j s)"
| "exec_cmd (CTransition i next setters) s = snd (Transition i next setters s)"
| "exec_cmd (CCheckpoint i epoch found path) s = snd (RecordCheckpoint i epoch found path s)"

fun admissible_cmd :: "store_cmd \<Rightarrow> bool" where
  "admissible_cmd (CTransition i next setters) = (\<forall>f \<in> set setters. benign f)"
| "admissible_cmd _ = True"

lemma Transition_updates:
  assumes "\<forall>f \<in> set fs. benign f" and "c \<in> set protected_columns"
    and "u = assigns (stamp_kvs next (fold (\<lambda>f u. f u) fs [(''state'', Text next)]) t)
      (fold (\<lambda>f u. f u) fs [(''state'', Text next)])"
  shows "map_of u c = (if c = ''state'' then Some (Text next)
     else if stamp_column next = Some c then Some (Integer (UnixNano t)) else None)"
proof -
  let ?v = "fold (\<lambda>f u. f u) fs [(''state'', Text next)]"
  have v: "map_of ?v c = (if c = ''state'' then Some (Text next) else None)"
    if "c \<in> set protected_columns" for c
    using fold_benign [OF assms(1) that] by simp
  have "stamp_column next = Some d \<Longrightarrow> d = ''started_at'' \<or> d = ''finished_at''" for d
    by (auto simp: stamp_column_def split: if_splits)
  then have "stamp_kvs next ?v t = (case stamp_column next of None \<Rightarrow> [] | Some d \<Rightarrow> [(d, Integer (UnixNano t))])"
    and "stamp_column next \<noteq> Some ''state''"
    using v by (fastforce simp: stamp_kvs_def split: option.splits)+
  then show ?thesis
    unfolding assms(3) map_of_assigns using v [OF assms(2)] by (auto simp: map_add_def split: option.splits)
qed

text \<open>What the updates of a transition say about the protected columns.\<close>

definition transition_sets :: "State \<Rightarrow> nanos \<Rightarrow> updates \<Rightarrow> bool" where
  "transition_sets next t u \<longleftrightarrow> (\<forall>c \<in> set protected_columns. map_of u c =
     (if c = ''state'' then Some (Text next)
      else if stamp_column next = Some c then Some (Integer (UnixNano t)) else None))"

lemma Transition_effect:
  assumes "Transition i next fs s = (Inr x, s')" and "\<forall>f \<in> set fs. benign f"
  obtains r cur u t ts v where "find_job i (db s) = Some r" and "scan_string (r ''state'') = Inr cur"
    and "IsValidTransition cur next" and "t = clock s (ticks s)"
    and "transition_sets next t u"
    and "db s' = (add_event i ''transition'' (transition_payload cur next u) ts (set_job i u (db s)))\<lparr>wal_marker := v\<rparr>"
  using assms(1)
proof (rule Transition_Inr)
  fix r cur t u ts v
  assume *: "find_job i (db s) = Some r" "scan_string (r ''state'') = Inr cur" "IsValidTransition cur next" "t = clock s (ticks s)"
    "u = assigns (stamp_kvs next (fold (\<lambda>f u. f u) fs [(''state'', Text next)]) t)
      (fold (\<lambda>f u. f u) fs [(''state'', Text next)])"
    "db s' = (add_event i ''transition'' (transition_payload cur next u) ts (set_job i u (db s)))\<lparr>wal_marker := v\<rparr>"
  have "transition_sets next t u"
    unfolding transition_sets_def using Transition_updates [OF assms(2) _ *(5)] by blast
  then show thesis by (rule that [OF *(1-4) _ *(6)])
qed

lemma stamp_column_simps [simp]: "stamp_column n \<noteq> Some ''id''" "stamp_column n \<noteq> Some ''state''"
  by (auto simp: stamp_column_def)

lemma Transition_state_of:
  assumes "Transition i next fs s = (Inr x, s')" and "\<forall>f \<in> set fs. benign f"
  shows "state_of (db s') j = (if j = i then Some next else state_of (db s) j)"
    and "\<exists>cur. state_of (db s) i = Some cur \<and> IsValidTransition cur next"
proof -
  from assms obtain r cur u t ts v where r: "find_job i (db s) = Some r" "scan_string (r ''state'') = Inr cur"
    "IsValidTransition cur next" and "t = clock s (ticks s)" and u: "transition_sets next t u"
    and d: "db s' = (add_event i ''transition'' (transition_payload cur next u) ts (set_job i u (db s)))\<lparr>wal_marker := v\<rparr>"
    by (rule Transition_effect)
  show "state_of (db s') j = (if j = i then Some next else state_of (db s) j)"
    unfolding d state_of_frame by (rule state_of_set_job [OF _ _ r(1)]) (simp_all add: u [unfolded transition_sets_def])
  show "\<exists>cur. state_of (db s) i = Some cur \<and> IsValidTransition cur next"
    using r by (simp add: state_of_def)
qed

lemma RecordCheckpoint_state_of: "state_of (db (snd (RecordCheckpoint i e f p s))) j = state_of (db s) j"
proof (cases "RecordCheckpoint i e f p s")
  case (Pair r s')
  show ?thesis
  proof (cases r)
    case (Inl e)
    with Pair show ?thesis by (simp add: RecordCheckpoint_Inl_db)
  next
    case (Inr x)
    from Pair [unfolded Inr] obtain now ts where "db s' = add_event i ''checkpoint'' (checkpoint_payload e f p) ts
       (set_job i (checkpoint_updates now e f p) (db s))" by (rule RecordCheckpoint_Inr)
    with Pair show ?thesis by (simp add: state_of_set_job_same checkpoint_updates_def)
  qed
qed

lemma state_of_new:
  "state_of (d\<lparr>jobs := jobs d @ [new_row j st t]\<rparr>) i =
     (if find_job i d = None \<and> i = job_ID j then Some st else state_of d i)"
  by (auto simp: state_of_def find_job_def find_append new_row_def job_values_def has_id_def scan_string_def
      split: option.splits)

lemma CreateJob_state_of:
  "state_of (db (snd (CreateJob j s))) i =
     (if isl (fst (CreateJob j s)) then state_of (db s) i
      else if i = job_ID j then Some (initial_state j) else state_of (db s) i)"
proof (cases "CreateJob j s")
  case (Pair r s')
  show ?thesis
  proof (cases r)
    case (Inl e)
    with Pair show ?thesis by (simp add: CreateJob_Inl_db)
  next
    case (Inr x)
    from Pair [unfolded Inr] obtain t ts where "find_job (job_ID j) (db s) = None" and "db s' =
       add_event (job_ID j) ''created'' (jmap [(''state'', JStr (initial_state j))]) ts
       ((db s)\<lparr>jobs := jobs (db s) @ [new_row j (initial_state j) t]\<rparr>)" by (rule CreateJob_Inr)
    with Pair Inr show ?thesis by (auto simp: state_of_new)
  qed
qed

text \<open>
  Case analysis on a command: it left the tables alone (every error does), or it created a
  job, moved one, or recorded a checkpoint.
\<close>

lemma exec_cmd_cases:
  assumes "admissible_cmd c"
  obtains (unchanged) "db (exec_cmd c s) = db s"
  | (created) j t ts where "c = CCreate j" and "find_job (job_ID j) (db s) = None"
      and "db (exec_cmd c s) = add_event (job_ID j) ''created'' (jmap [(''state'', JStr (initial_state j))]) ts
         ((db s)\<lparr>jobs := jobs (db s) @ [new_row j (initial_state j) t]\<rparr>)"
  | (moved) i nxt fs r cur u t ts v where "c = CTransition i nxt fs" and "find_job i (db s) = Some r"
      and "scan_string (r ''state'') = Inr cur" and "IsValidTransition cur nxt" and "transition_sets nxt t u"
      and "db (exec_cmd c s) =
         (add_event i ''transition'' (transition_payload cur nxt u) ts (set_job i u (db s)))\<lparr>wal_marker := v\<rparr>"
  | (checkpointed) i e f p now ts r where "c = CCheckpoint i e f p" and "find_job i (db s) = Some r"
      and "db (exec_cmd c s) = add_event i ''checkpoint'' (checkpoint_payload e f p) ts
         (set_job i (checkpoint_updates now e f p) (db s))"
proof (cases c)
  case (CCreate j)
  obtain r s' where o: "CreateJob j s = (r, s')" by fastforce
  show thesis
  proof (cases r)
    case (Inl e)
    with o CCreate unchanged show thesis by (simp add: CreateJob_Inl_db)
  next
    case (Inr x)
    from o [unfolded Inr] show thesis by (rule CreateJob_Inr) (rule created, use o CCreate in auto)
  qed
next
  case (CTransition i nxt fs)
  obtain r s' where o: "Transition i nxt fs s = (r, s')" by fastforce
  show thesis
  proof (cases r)
    case (Inl e)
    with o CTransition unchanged show thesis by (simp add: Transition_Inl_db)
  next
    case (Inr x)
    have "\<forall>f \<in> set fs. benign f" using assms CTransition by simp
    with o [unfolded Inr] show thesis by (rule Transition_effect) (rule moved, use o CTransition in auto)
  qed
next
  case (CCheckpoint i e f p)
  obtain r s' where o: "RecordCheckpoint i e f p s = (r, s')" by fastforce
  show thesis
  proof (cases r)
    case (Inl e)
    with o CCheckpoint unchanged show thesis by (simp add: RecordCheckpoint_Inl_db)
  next
    case (Inr x)
    from o [unfolded Inr] show thesis by (rule RecordCheckpoint_Inr) (rule checkpointed, use o CCheckpoint in auto)
  qed
qed

lemma transition_setsD:
  assumes "transition_sets next t u"
  shows "map_of u ''id'' = None" and "map_of u ''state'' = Some (Text next)"
  using assms by (simp_all add: transition_sets_def)

lemma checkpoint_updates_cols [simp]:
  "map_of (checkpoint_updates now e f p) ''id'' = None"
  "map_of (checkpoint_updates now e f p) ''state'' = None"
  by (simp_all add: checkpoint_updates_def)

interpretation store_log: lifecycle_log "\<lambda>s. state_of (db s)" exec_cmd admissible_cmd
proof
  fix c i a and s :: Store
  assume adm: "admissible_cmd c" and a: "state_of (db s) i = Some a"
  from adm show "\<exists>b. state_of (db (exec_cmd c s)) i = Some b \<and> IsValidTransition a b"
  proof (cases rule: exec_cmd_cases [where s = s])
    case unchanged
    with a show ?thesis by simp
  next
    case (created j t ts)
    with a have "i \<noteq> job_ID j" by (auto simp: state_of_def)
    with created a show ?thesis by (simp add: state_of_new)
  next
    case (moved k nxt fs r cur u t ts v)
    then have "i = k \<Longrightarrow> cur = a" using a by (simp add: state_of_def)
    with moved a show ?thesis by (auto simp: state_of_set_job [OF transition_setsD moved(2)])
  next
    case (checkpointed k e f p now ts r)
    with a show ?thesis by (simp add: state_of_set_job_same)
  qed
qed

section \<open>The invariant of the tables\<close>

text \<open>
  Row by row: the key and the state are texts, the state is one of the eight, a terminal row
  has a finishing time, a row that has run has a starting time, and the four checkpoint
  columns are set together.
\<close>

definition has_run :: "lifecycle \<Rightarrow> bool" where
  "has_run l \<longleftrightarrow> l \<in> {Running, Checkpointing, Completed, InterruptedResumable}"

definition row_inv :: "row \<Rightarrow> bool" where
  "row_inv r \<longleftrightarrow>
     (\<exists>i. r ''id'' = Text i) \<and>
     (\<exists>l. r ''state'' = Text (state_name l) \<and>
        (IsTerminal (state_name l) \<longrightarrow> r ''finished_at'' \<noteq> Null) \<and>
        (has_run l \<longrightarrow> r ''started_at'' \<noteq> Null)) \<and>
     (\<forall>c \<in> {''last_checkpoint_path'', ''last_checkpoint_epoch'', ''last_checkpoint_found''}.
        r c = Null \<longleftrightarrow> r ''last_checkpoint_at'' = Null)"

text \<open>
  The tables: every row satisfies \<open>row_inv\<close>, keys are unique, event ids increase strictly, never
  exceed the sequence, and belong to a job that exists.
\<close>

definition db_inv :: "database \<Rightarrow> bool" where
  "db_inv d \<longleftrightarrow>
     (\<forall>r \<in> set (jobs d). row_inv r) \<and> distinct (map (\<lambda>r. r ''id'') (jobs d)) \<and>
     sorted_wrt (<) (map ev_id (job_events d)) \<and>
     (\<forall>e \<in> set (job_events d). ev_id e \<le> event_seq d \<and> (\<exists>r \<in> set (jobs d). has_id (ev_job_id e) r))"

lemma db_inv_fresh [simp]: "db_inv fresh_database"
  by (simp add: db_inv_def fresh_database_def)

lemma db_inv_marker [simp]: "db_inv (d\<lparr>wal_marker := v\<rparr>) \<longleftrightarrow> db_inv d"
  by (simp add: db_inv_def)

lemma db_inv_add_event:
  assumes "db_inv d" and "find_job i d \<noteq> None"
  shows "db_inv (add_event i ty p ts d)"
proof -
  from assms(2) have "\<exists>r \<in> set (jobs d). has_id i r" by (auto dest!: find_job_has_id)
  with assms(1) show ?thesis
    by (fastforce simp: db_inv_def add_event_def sorted_wrt_append)
qed

lemma set_job_ids: "map_of u ''id'' = None \<Longrightarrow> map (\<lambda>r. r ''id'') (jobs (set_job i u d)) = map (\<lambda>r. r ''id'') (jobs d)"
  by (simp add: set_job_def update_row_def)

lemma ex_has_id: "(\<exists>r \<in> set (jobs d). has_id k r) \<longleftrightarrow> find_job k d \<noteq> None"
  by (auto simp: find_job_def find_None_iff)

lemma set_job_has_id:
  "map_of u ''id'' = None \<Longrightarrow> (\<exists>r \<in> set (jobs (set_job i u d)). has_id k r) = (\<exists>r \<in> set (jobs d). has_id k r)"
  unfolding ex_has_id by (simp add: find_job_set_job)

lemma db_inv_set_job:
  assumes "db_inv d" and "map_of u ''id'' = None"
    and "\<And>r. r \<in> set (jobs d) \<Longrightarrow> has_id i r \<Longrightarrow> row_inv r \<Longrightarrow> row_inv (update_row u r)"
  shows "db_inv (set_job i u d)"
proof -
  have "\<forall>r \<in> set (jobs (set_job i u d)). row_inv r"
    using assms(1,3) by (auto simp: set_job_def db_inv_def)
  moreover have "job_events (set_job i u d) = job_events d" "event_seq (set_job i u d) = event_seq d"
    by (simp_all add: set_job_def)
  ultimately show ?thesis
    using assms(1) set_job_ids [OF assms(2), of i d] set_job_has_id [OF assms(2), of i d]
    unfolding db_inv_def by simp
qed

lemma row_invE:
  assumes "row_inv r"
  obtains i l where "r ''id'' = Text i" and "r ''state'' = Text (state_name l)"
    and "IsTerminal (state_name l) \<longrightarrow> r ''finished_at'' \<noteq> Null" and "has_run l \<longrightarrow> r ''started_at'' \<noteq> Null"
    and "\<forall>c \<in> {''last_checkpoint_path'', ''last_checkpoint_epoch'', ''last_checkpoint_found''}.
        r c = Null \<longleftrightarrow> r ''last_checkpoint_at'' = Null"
  using assms unfolding row_inv_def by (elim conjE exE) (rule that; assumption)

lemma has_run_step:
  assumes "lifecycle_step a b" and "has_run b" and "b \<noteq> Running"
  shows "has_run a"
  using assms by (auto simp: lifecycle_step_iff has_run_def active_def)

lemma IsTerminal_column: "IsTerminal n \<Longrightarrow> stamp_column n = Some ''finished_at''"
  by (auto simp: stamp_column_def)

lemma row_inv_transition:
  assumes "row_inv r" and "scan_string (r ''state'') = Inr cur" and "IsValidTransition cur next"
    and u: "transition_sets next t u"
  shows "row_inv (update_row u r)"
proof -
  from assms(1) obtain i l where i: "r ''id'' = Text i" and l: "r ''state'' = Text (state_name l)"
      "IsTerminal (state_name l) \<longrightarrow> r ''finished_at'' \<noteq> Null" "has_run l \<longrightarrow> r ''started_at'' \<noteq> Null"
    and ck: "\<forall>c \<in> {''last_checkpoint_path'', ''last_checkpoint_epoch'', ''last_checkpoint_found''}.
        r c = Null \<longleftrightarrow> r ''last_checkpoint_at'' = Null" by (rule row_invE)
  note cols = u [unfolded transition_sets_def]
  from assms(2) l have cur: "cur = state_name l" by (simp add: scan_string_def)
  then obtain l' where l': "next = state_name l'" "lifecycle_step l l'"
    using assms(3) by (auto simp: IsValidTransition_iff intro: lifecycle_step.stay)
  have "IsTerminal next \<longrightarrow> update_row u r ''finished_at'' \<noteq> Null"
    by (simp add: update_row_def cols IsTerminal_column)
  moreover have "has_run l' \<longrightarrow> update_row u r ''started_at'' \<noteq> Null"
  proof (cases "l' = Running")
    case True
    then show ?thesis using l'(1) by (simp add: update_row_def cols stamp_column_def)
  next
    case False
    then show ?thesis using l(3) has_run_step [OF l'(2)]
      by (auto simp: update_row_def cols stamp_column_def split: option.splits)
  qed
  moreover have "update_row u r ''last_checkpoint_at'' = r ''last_checkpoint_at''"
    "update_row u r ''last_checkpoint_path'' = r ''last_checkpoint_path''"
    "update_row u r ''last_checkpoint_epoch'' = r ''last_checkpoint_epoch''"
    "update_row u r ''last_checkpoint_found'' = r ''last_checkpoint_found''"
    by (simp_all add: update_row_def cols stamp_column_def)
  moreover have "update_row u r ''id'' = Text i" "update_row u r ''state'' = Text next"
    using i by (simp_all add: update_row_def cols)
  ultimately show ?thesis using l' ck unfolding row_inv_def by auto
qed

lemma row_inv_checkpoint: "row_inv r \<Longrightarrow> row_inv (update_row (checkpoint_updates t e f p) r)"
  by (simp add: row_inv_def update_row_def checkpoint_updates_def)

text \<open>A job may be created in a state that needs no time stamps.\<close>

definition fresh_job :: "Job \<Rightarrow> bool" where
  "fresh_job j \<longleftrightarrow> job_State j \<in> {'''', StatePending}"

lemma initial_state_fresh: "fresh_job j \<Longrightarrow> initial_state j = StatePending"
  by (auto simp: fresh_job_def initial_state_def)

lemma row_inv_new: "row_inv (new_row j StatePending t)"
proof -
  have "StatePending = state_name Pending" by simp
  then show ?thesis unfolding row_inv_def
    by (auto simp: new_row_def job_values_def has_run_def intro!: exI [of _ Pending])
qed

lemma db_inv_new:
  assumes "db_inv d" and "find_job (job_ID j) d = None"
  shows "db_inv (d\<lparr>jobs := jobs d @ [new_row j StatePending t]\<rparr>)"
proof -
  have "new_row j StatePending t ''id'' = Text (job_ID j)" by (simp add: new_row_def job_values_def)
  with assms row_inv_new show ?thesis
    by (auto simp: db_inv_def find_job_def find_None_iff has_id_def)
qed

fun well_behaved :: "store_cmd \<Rightarrow> bool" where
  "well_behaved (CCreate j) = fresh_job j"
| "well_behaved (CTransition i next setters) = (\<forall>f \<in> set setters. benign f)"
| "well_behaved (CCheckpoint i epoch found path) = True"

lemma well_behaved_admissible: "well_behaved c \<Longrightarrow> admissible_cmd c"
  by (cases c) simp_all

lemma find_job_unique:
  assumes "db_inv d" and "find_job i d = Some q" and "r \<in> set (jobs d)" and "has_id i r"
  shows "r = q"
  using assms find_job_has_id [OF assms(2)]
  by (auto simp: db_inv_def has_id_def distinct_map inj_on_def)

lemma db_inv_exec:
  assumes "db_inv (db s)" and "well_behaved c"
  shows "db_inv (db (exec_cmd c s))"
  using well_behaved_admissible [OF assms(2)]
proof (cases rule: exec_cmd_cases [where s = s])
  case unchanged
  with assms show ?thesis by simp
next
  case (created j t ts)
  then have "initial_state j = StatePending" using assms(2) by (simp add: initial_state_fresh)
  moreover have "find_job (job_ID j) ((db s)\<lparr>jobs := jobs (db s) @ [new_row j StatePending t]\<rparr>) \<noteq> None"
    by (auto simp: find_job_def find_None_iff has_id_def new_row_def job_values_def)
  ultimately show ?thesis using created db_inv_new [OF assms(1) created(2)] by (simp add: db_inv_add_event)
next
  case (moved i nxt fs q cur u t ts v)
  note uid = transition_setsD(1) [OF moved(5)]
  have "db_inv (set_job i u (db s))"
    using find_job_unique [OF assms(1) moved(2)] moved(3-5)
    by (intro db_inv_set_job [OF assms(1) uid]) (blast intro: row_inv_transition)
  moreover have "find_job i (set_job i u (db s)) \<noteq> None" using moved(2) by (simp add: find_job_set_job uid)
  ultimately show ?thesis using moved by (simp add: db_inv_add_event)
next
  case (checkpointed i e f p now ts q)
  have "db_inv (set_job i (checkpoint_updates now e f p) (db s))"
    using assms(1) by (intro db_inv_set_job row_inv_checkpoint) simp_all
  moreover have "find_job i (set_job i (checkpoint_updates now e f p) (db s)) \<noteq> None"
    using checkpointed(2) by (simp add: find_job_set_job)
  ultimately show ?thesis using checkpointed by (simp add: db_inv_add_event)
qed

section \<open>The audit trail\<close>

text \<open>The events of a job that record its state: its creation and its transitions.\<close>

definition life_events :: "database \<Rightarrow> string \<Rightarrow> event_row list" where
  "life_events d i = filter (\<lambda>e. ev_job_id e = i \<and> ev_type e \<in> {''created'', ''transition''}) (job_events d)"

definition records_state :: "event_row \<Rightarrow> State \<Rightarrow> bool" where
  "records_state e st \<longleftrightarrow>
     ev_type e = ''created'' \<and> ev_payload e = marshal (jmap [(''state'', JStr st)]) \<or>
     ev_type e = ''transition'' \<and> (\<exists>cur u. ev_payload e = marshal (transition_payload cur st u))"

definition audit_inv :: "database \<Rightarrow> bool" where
  "audit_inv d \<longleftrightarrow> (\<forall>i st. state_of d i = Some st \<longrightarrow>
     life_events d i \<noteq> [] \<and> records_state (last (life_events d i)) st)"

lemma audit_inv_fresh [simp]: "audit_inv fresh_database"
  by (simp add: audit_inv_def state_of_def find_job_def fresh_database_def)

lemma life_events_add_event:
  "life_events (add_event j ty p ts d) i = life_events d i @
     (if j = i \<and> ty \<in> {''created'', ''transition''} then [\<lparr>ev_id = event_seq d + 1, ev_job_id = j, ev_type = ty,
        ev_payload = marshal p, ev_recorded_at = UnixNano ts\<rparr>] else [])"
  by (simp add: life_events_def add_event_def)

lemma life_events_frame [simp]:
  "life_events (d\<lparr>wal_marker := v\<rparr>) i = life_events d i"
  "life_events (set_job j u d) i = life_events d i"
  "life_events (d\<lparr>jobs := rs\<rparr>) i = life_events d i"
  by (simp_all add: life_events_def set_job_def)

lemma audit_inv_exec:
  assumes "audit_inv (db s)" and "admissible_cmd c"
  shows "audit_inv (db (exec_cmd c s))"
  using assms(2)
proof (cases rule: exec_cmd_cases [where s = s])
  case unchanged
  with assms show ?thesis by simp
next
  case (created j t ts)
  show ?thesis using assms(1) created(2) unfolding audit_inv_def created(3)
    by (auto simp: state_of_new life_events_add_event records_state_def)
next
  case (moved k nxt fs r cur u t ts v)
  show ?thesis using assms(1) unfolding audit_inv_def moved(6)
    by (auto simp: state_of_set_job [OF transition_setsD [OF moved(5)] moved(2)] life_events_add_event records_state_def)
next
  case (checkpointed k e f p now ts r)
  show ?thesis using assms(1) unfolding audit_inv_def checkpointed(3)
    by (simp add: state_of_set_job_same life_events_add_event)
qed

text \<open>The event log only grows, by at most one event per command.\<close>

lemma events_append_only:
  assumes "admissible_cmd c"
  shows "\<exists>es. job_events (db (exec_cmd c s)) = job_events (db s) @ es \<and> length es \<le> 1"
  using assms
  by (cases rule: exec_cmd_cases [where s = s]) (simp_all add: add_event_def set_job_def)

section \<open>Queries\<close>

text \<open>A store none of whose driver calls fails.\<close>

definition quiet :: "Store \<Rightarrow> bool" where
  "quiet s \<longleftrightarrow> faults s = (\<lambda>_. None)"

lemma driver_call_quiet: "quiet s \<Longrightarrow> driver_call s = (Inr (), s\<lparr>calls := Suc (calls s)\<rparr>)"
  by (simp add: driver_call_def quiet_def)

definition readable :: "row \<Rightarrow> bool" where
  "readable r \<longleftrightarrow> \<not> isl (scanJob r)"

definition job_of :: "row \<Rightarrow> Job" where
  "job_of r = projr (scanJob r)"

lemma readable_scanJob: "readable r \<Longrightarrow> scanJob r = Inr (job_of r)"
  by (simp add: readable_def job_of_def)

lemma scanJobs_readable: "\<forall>r \<in> set rs. readable r \<Longrightarrow> scanJobs rs = Inr (map job_of rs)"
  by (induction rs) (simp_all add: readable_scanJob andThen_def)

lemma scanJob_fields:
  assumes "scanJob r = Inr j"
  shows "scan_string (r ''id'') = Inr (job_ID j)" and "scan_string (r ''state'') = Inr (job_State j)"
    and "scan_int64 (r ''created_at'') = Inr (job_CreatedAt j)"
    and "scan_null_int64 (r ''last_checkpoint_at'') = Inr (job_LastCheckpointAt j)"
    and "scan_null_string (r ''last_checkpoint_path'') = Inr (job_LastCheckpointPath j)"
    and "scan_null_string (r ''container_id'') = Inr (job_ContainerID j)"
  using assms unfolding scanJob_def by (auto elim!: andThen_InrE split: option.splits)

lemma job_of_ID: "readable r \<Longrightarrow> has_id i r \<Longrightarrow> job_ID (job_of r) = i"
  using scanJob_fields(1) [OF readable_scanJob, of r] by (simp add: has_id_def scan_string_def)

text \<open>Rows in strictly decreasing order of creation, the order of the listing without ties.\<close>

definition listing :: "State \<Rightarrow> database \<Rightarrow> row list" where
  "listing state d = sort_key (\<lambda>r. - created_at r) (filter (list_where state '''' d) (jobs d))"

lemma sort_key_unique:
  fixes f :: "'a \<Rightarrow> 'b::linorder"
  assumes "mset xs = mset ys" and "inj_on f (set xs)"
  shows "sort_key f xs = sort_key f ys"
proof -
  have "map f (sort_key f xs) = map f (sort_key f ys)"
  proof -
    have "mset (map f (sort_key f xs)) = mset (map f (sort_key f ys))"
      using assms(1) by simp
    moreover have "sorted (map f (sort_key f xs))" "sorted (map f (sort_key f ys))" by simp_all
    ultimately show ?thesis by (metis properties_for_sort)
  qed
  moreover have "set xs = set ys" using assms(1) by (rule mset_eq_set)
  ultimately show ?thesis using assms(2) by (intro map_inj_on [of f]) auto
qed

lemma filter_sort_key:
  fixes f :: "'a \<Rightarrow> 'b::linorder"
  shows "sort_key f (filter P xs) = filter P (sort_key f xs)"
  by (rule filter_sort [symmetric])

lemma strict_suffix:
  fixes f :: "'a \<Rightarrow> int"
  assumes "sorted_wrt (\<lambda>x y. f x < f y) (A @ [c] @ B)"
  shows "filter (\<lambda>r. f c < f r) (A @ [c] @ B) = B"
  using assms by (induction A) (auto simp: sorted_wrt_append filter_id_conv)

text \<open>One page, where the driver does not fail and every row scans.\<close>

definition page_rows :: "State \<Rightarrow> string \<Rightarrow> Store \<Rightarrow> row list" where
  "page_rows state cursor s =
     sort_key (\<lambda>r. - created_at r) (filter (list_where state cursor (db s)) (scan s (jobs (db s))))"

lemma ListJobs_quiet:
  assumes "quiet s" and "\<forall>r \<in> set (jobs (db s)). readable r" and "mset (scan s (jobs (db s))) = mset (jobs (db s))"
  shows "ListJobs state cursor limit s =
     (Inr (map job_of (take (page_limit limit) (page_rows state cursor s)),
        if length (page_rows state cursor s) > page_limit limit
        then job_ID (job_of (page_rows state cursor s ! (page_limit limit - 1))) else ''''),
      s\<lparr>calls := Suc (calls s)\<rparr>)"
proof -
  let ?n = "page_limit limit" and ?R = "page_rows state cursor s"
  have n: "0 < ?n" by (simp add: page_limit_def)
  have "set ?R \<subseteq> set (jobs (db s))" using mset_eq_set [OF assms(3)] by (auto simp: page_rows_def)
  then have sc: "scanJobs (take (Suc ?n) ?R) = Inr (map job_of (take (Suc ?n) ?R))"
    using assms(2) by (intro scanJobs_readable) (auto dest: in_set_takeD)
  have idx: "length ?R > ?n \<Longrightarrow> map job_of (take (Suc ?n) ?R) ! (?n - 1) = job_of (?R ! (?n - 1))"
    using n by (simp add: nth_take)
  show ?thesis
    using sc idx n unfolding page_rows_def
    by (auto simp: ListJobs_def Let_def bnd_def driver_call_quiet [OF assms(1)] lift_result_def ret_def list_query_def
        take_map min_def)
qed

text \<open>
  A client that follows the cursors from page to page. Each page consumes a unit of fuel;
  \<open>None\<close> is an error of the store or a loop that did not end.
\<close>

fun follow_pages :: "nat \<Rightarrow> State \<Rightarrow> string \<Rightarrow> int \<Rightarrow> Store \<Rightarrow> Job list option" where
  "follow_pages 0 state cursor limit s = None"
| "follow_pages (Suc fuel) state cursor limit s =
     (case ListJobs state cursor limit s of
        (Inl e, s') \<Rightarrow> None
      | (Inr (page, nextCursor), s') \<Rightarrow>
          if nextCursor = '''' then Some page
          else map_option ((@) page) (follow_pages fuel state nextCursor limit s'))"

lemma listing_strict:
  assumes "inj_on created_at (set (jobs d))" and "distinct (jobs d)"
  shows "sorted_wrt (\<lambda>x y. - created_at x < - created_at y) (listing state d)"
proof -
  let ?L = "listing state d"
  have "sorted (map (\<lambda>r. - created_at r) ?L)" by (simp add: listing_def)
  moreover have "distinct (map (\<lambda>r. - created_at r) ?L)"
    using assms by (auto simp: listing_def distinct_map inj_on_def)
  ultimately have "sorted_wrt (<) (map (\<lambda>r. - created_at r) ?L)" by (simp add: strict_sorted_iff)
  then show ?thesis by (simp add: sorted_wrt_map)
qed

lemma page_rows_listing:
  assumes "inj_on created_at (set (jobs (db s)))" and "mset (scan s (jobs (db s))) = mset (jobs (db s))"
  shows "page_rows state '''' s = listing state (db s)"
    and "cursor \<noteq> '''' \<Longrightarrow> find_job cursor (db s) = Some c \<Longrightarrow>
      page_rows state cursor s = filter (\<lambda>r. - created_at c < - created_at r) (listing state (db s))"
proof -
  let ?key = "\<lambda>r. - created_at r"
  have inj: "inj_on ?key (set (scan s (jobs (db s))))"
    using assms(1) mset_eq_set [OF assms(2)] by (simp add: inj_on_def)
  have *: "sort_key ?key (filter P (scan s (jobs (db s)))) = sort_key ?key (filter P (jobs (db s)))" for P
    using inj assms(2) by (intro sort_key_unique) (auto intro: inj_on_subset)
  show "page_rows state '''' s = listing state (db s)"
    by (simp add: page_rows_def listing_def *)
  assume "cursor \<noteq> ''''" and "find_job cursor (db s) = Some c"
  then have w: "list_where state cursor (db s) = (\<lambda>r. ?key c < ?key r \<and> list_where state '''' (db s) r)"
    by (auto simp: list_where_def)
  have "page_rows state cursor s = filter (list_where state cursor (db s)) (sort_key ?key (jobs (db s)))"
    unfolding page_rows_def * unfolding filter_sort_key ..
  also have "\<dots> = filter (\<lambda>r. ?key c < ?key r) (listing state (db s))"
    unfolding listing_def filter_sort_key filter_filter w by (simp add: conj_commute)
  finally show "page_rows state cursor s = filter (\<lambda>r. ?key c < ?key r) (listing state (db s))" .
qed

text \<open>
  Following the cursors delivers the whole listing: at every page the rows still to come are
  the rows after the cursor's, because creation times are pairwise different.
\<close>

definition listable :: "Store \<Rightarrow> bool" where
  "listable s \<longleftrightarrow> quiet s \<and> distinct (jobs (db s)) \<and> inj_on created_at (set (jobs (db s))) \<and>
     (\<forall>r \<in> set (jobs (db s)). readable r \<and> (\<exists>n. r ''created_at'' = Integer n) \<and>
        (\<exists>i. has_id i r \<and> i \<noteq> '''' \<and> find_job i (db s) = Some r)) \<and>
     mset (scan s (jobs (db s))) = mset (jobs (db s))"

lemma listable_calls [simp]: "listable (s\<lparr>calls := n\<rparr>) = listable s"
  by (simp add: listable_def quiet_def)

lemma page_limit_pos: "0 < page_limit limit"
  by (simp add: page_limit_def)

lemma follow_pages_listing:
  assumes "listable s" and "page_rows state cursor s = B"
    and "listing state (db s) = A @ B" and "length B < fuel"
  shows "follow_pages fuel state cursor limit s = Some (map job_of B)"
  using assms
proof (induction fuel arbitrary: s cursor A B)
  case 0
  then show ?case by simp
next
  case (Suc fuel)
  let ?n = "page_limit limit" and ?s = "s\<lparr>calls := Suc (calls s)\<rparr>"
  note page = ListJobs_quiet [of s state cursor limit]
  show ?case
  proof (cases "length B > ?n")
    case False
    with Suc.prems page show ?thesis by (simp add: listable_def)
  next
    case True
    let ?c = "B ! (?n - 1)"
    have "?n - 1 < length B" using True by simp
    then have B: "B = take (?n - 1) B @ [?c] @ drop ?n B"
      using page_limit_pos [of limit] by (metis Cons_nth_drop_Suc One_nat_def Suc_pred append_Cons append_Nil append_take_drop_id)
    have "?c \<in> set (jobs (db s))"
      using Suc.prems(3) \<open>?n - 1 < length B\<close>
      by (auto simp: listing_def intro!: nth_mem dest!: arg_cong [where f = set])
    then obtain i where i: "has_id i ?c" "i \<noteq> ''''" "find_job i (db s) = Some ?c" and "readable ?c"
      using Suc.prems(1) by (auto simp: listable_def)
    then have id: "job_ID (job_of ?c) = i" by (simp add: job_of_ID)
    have strict: "sorted_wrt (\<lambda>x y. - created_at x < - created_at y) ((A @ take (?n - 1) B) @ [?c] @ drop ?n B)"
      using listing_strict [of "db s" state] Suc.prems B by (simp add: listable_def)
    have "page_rows state i ?s = filter (\<lambda>r. - created_at ?c < - created_at r) (listing state (db s))"
      using page_rows_listing(2) [of ?s i ?c state] i Suc.prems(1) by (simp add: listable_def)
    also have "listing state (db s) = (A @ take (?n - 1) B) @ [?c] @ drop ?n B"
      using Suc.prems(3) B by simp
    finally have rest: "page_rows state i ?s = drop ?n B" using strict_suffix [OF strict] by simp
    have "follow_pages fuel state i limit ?s = Some (map job_of (drop ?n B))"
      using Suc.prems True page_limit_pos [of limit] rest
      by (intro Suc.IH [where A = "A @ take ?n B"]) auto
    with Suc.prems page True i id show ?thesis
      by (simp add: listable_def) (metis append_take_drop_id map_append)
  qed
qed

lemma follow_pages_all:
  assumes "listable s"
  shows "follow_pages (Suc (length (jobs (db s)))) state '''' limit s = Some (map job_of (listing state (db s)))"
proof (rule follow_pages_listing [where A = "[]"])
  show "page_rows state '''' s = listing state (db s)"
    using assms by (intro page_rows_listing) (auto simp: listable_def)
  have "length (listing state (db s)) \<le> length (jobs (db s))" by (simp add: listing_def)
  then show "length (listing state (db s)) < Suc (length (jobs (db s)))" by simp
qed (use assms in simp_all)

section \<open>Reading back what was written\<close>

lemma scan_simps [simp]:
  "scan_string (Text t) = Inr t" "scan_int64 (Integer n) = Inr n"
  "scan_null_string (Text t) = Inr (Some t)" "scan_null_int64 (Integer n) = Inr (Some n)"
  "scan_null_string Null = Inr None" "scan_null_int64 Null = Inr None"
  by (simp_all add: scan_string_def scan_int64_def scan_null_string_def scan_null_int64_def)

text \<open>The job a reader sees right after its creation.\<close>

definition created_job :: "Job \<Rightarrow> nanos \<Rightarrow> Job" where
  "created_job j t =
     \<lparr>job_ID = job_ID j, job_Image = job_Image j, job_Command = job_Command j, job_Args = job_Args j,
      job_State = initial_state j, job_CreatedAt = UnixNano t, job_StartedAt = None,
      job_FinishedAt = None, job_ExitCode = None, job_LastCheckpointAt = None,
      job_LastCheckpointPath = None, job_LastCheckpointEpoch = None, job_LastCheckpointFound = None,
      job_ContainerID = None, job_ControllerPID = None, job_StateVolumePath = None,
      job_AssignedControllerID = None\<rparr>"

lemma scanJob_new_row:
  assumes "\<forall>a \<in> set (job_Args j). utf8_ok a"
  shows "scanJob (new_row j (initial_state j) t) = Inr (created_job j t)"
  using unmarshal_marshal_strings [OF assms]
  by (simp add: scanJob_def new_row_def job_values_def created_job_def)

lemma GetJob_db:
  "GetJob i s = (case faults s (calls s) of
     Some e \<Rightarrow> (Inl (DbError e), s\<lparr>calls := Suc (calls s)\<rparr>)
   | None \<Rightarrow> (case find_job i (db s) of None \<Rightarrow> Inl ErrNotFound | Some r \<Rightarrow> scanJob r, s\<lparr>calls := Suc (calls s)\<rparr>))"
  by (simp add: GetJob_def bnd_def driver_call_def get_db_def fail_def lift_result_def split: option.splits)

lemma has_id_new_row [simp]: "has_id i (new_row j st t) \<longleftrightarrow> i = job_ID j"
  by (auto simp: has_id_def new_row_def job_values_def)

lemma CreateJob_find_job:
  assumes "CreateJob j s = (Inr x, s')"
  shows "find_job (job_ID j) (db s') = Some (new_row j (initial_state j)
     (if job_CreatedAt j = zero_time then clock s (ticks s) else job_CreatedAt j))"
  using assms
proof (rule CreateJob_Inr)
  fix t ts
  assume "find_job (job_ID j) (db s) = None"
    and "t = (if job_CreatedAt j = zero_time then clock s (ticks s) else job_CreatedAt j)"
    and "db s' = add_event (job_ID j) ''created'' (jmap [(''state'', JStr (initial_state j))]) ts
       ((db s)\<lparr>jobs := jobs (db s) @ [new_row j (initial_state j) t]\<rparr>)"
  then show ?thesis
    by (simp add: find_job_def find_append add_event_def)
qed

text \<open>Events are read newest first.\<close>

lemma sort_key_rev_increasing:
  assumes "sorted_wrt (<) (map f xs)"
  shows "sort_key (\<lambda>x. - f x :: int) xs = rev xs"
proof -
  have "sorted (map (\<lambda>x. - f x) (rev xs))"
    using assms by (induction xs) (auto simp: sorted_append rev_map)
  moreover have "inj_on (\<lambda>x. - f x) (set xs)"
    using assms strict_sorted_iff [of "map f xs"] by (auto simp: distinct_map inj_on_def)
  ultimately show ?thesis
    by (metis mset_rev sort_key_id_if_sorted sort_key_unique)
qed

lemma sorted_filter_ids:
  "sorted_wrt (<) (map ev_id es) \<Longrightarrow> sorted_wrt (<) (map ev_id (filter P es))"
  by (induction es) auto

lemma RecentEvents_newest_first:
  assumes "quiet s" and "db_inv (db s)"
  shows "RecentEvents i limit s =
     (Inr (map to_event (take (event_limit limit) (rev (filter (\<lambda>e. ev_job_id e = i) (job_events (db s)))))),
      s\<lparr>calls := Suc (calls s)\<rparr>)"
proof -
  have "sort_key (\<lambda>e. - ev_id e) (filter (\<lambda>e. ev_job_id e = i) (job_events (db s))) =
      rev (filter (\<lambda>e. ev_job_id e = i) (job_events (db s)))"
    using assms(2) by (intro sort_key_rev_increasing sorted_filter_ids) (simp add: db_inv_def)
  then show ?thesis
    using assms(1) by (simp add: RecentEvents_def bnd_def driver_call_quiet get_db_def ret_def)
qed

text \<open>\<open>Open\<close>: the migration adds the column once and keeps every job.\<close>

lemma Contains_duplicate: "Contains (''duplicate column name: '' @ c) ''duplicate column''"
  by (simp add: Contains_def HasPrefix_def)

lemma Open_quiet:
  assumes "quiet env" and "path = '':memory:'' \<or> ensureDir mkdirAll path = None"
  shows "\<exists>s. Open mkdirAll path disk env = Inr s \<and> quiet s \<and>
     db s = (if ''assigned_controller_id'' \<in> set (job_cols (schemaSQL disk)) then schemaSQL disk
       else (schemaSQL disk)\<lparr>job_cols := job_cols (schemaSQL disk) @ [''assigned_controller_id''],
         jobs := map (\<lambda>r. r(''assigned_controller_id'' := Null)) (jobs (schemaSQL disk))\<rparr>)"
proof -
  have pre: "(if path \<noteq> '':memory:'' then ensureDir mkdirAll path else None) = None" using assms(2) by auto
  show ?thesis
    using assms(1) Contains_duplicate [of "''assigned_controller_id''"]
    unfolding Open_def pre by (auto simp: migrate_def driver_call_def quiet_def alter_add_column_def)
qed

end
