(* ===== verification/StoreProps.thy ===== *)
theory StoreProps
  imports StoreFacts
begin

text \<open>
  The properties of the job store, each with a witness where it has hypotheses: the state
  machine is the documented one, every operation is atomic, what a transition and a checkpoint
  write, terminal states are final under any history, the tables keep their invariant, the
  audit trail is complete, and the queries return what they should.
\<close>

section \<open>A store to evaluate the properties on\<close>

text \<open>An empty database, a clock that starts at 1000 and advances, a driver without faults.\<close>

definition demo_store :: Store where
  "demo_store = \<lparr>db = fresh_database, clock = (\<lambda>n. 1000 + int n), ticks = 0,
     faults = (\<lambda>_. None), calls = 0, scan = (\<lambda>rs. rs), pragmas = []\<rparr>"

definition demo_job :: "string \<Rightarrow> Job" where
  "demo_job i =
     \<lparr>job_ID = i, job_Image = ''img'', job_Command = ''run'', job_Args = [''--limit'', ''7''],
      job_State = '''', job_CreatedAt = zero_time, job_StartedAt = None,
      job_FinishedAt = None, job_ExitCode = None, job_LastCheckpointAt = None,
      job_LastCheckpointPath = None, job_LastCheckpointEpoch = None, job_LastCheckpointFound = None,
      job_ContainerID = None, job_ControllerPID = None, job_StateVolumePath = None,
      job_AssignedControllerID = None\<rparr>"

lemmas op_defs = CreateJob_def Transition_def RecordCheckpoint_def transition_tx_def create_tx_def
  with_tx_def insert_job_def update_job_def select_state_def insertEvent_def stamp_def boundary_checkpoint_def
  wal_checkpoint_def set_wal_marker_def driver_call_def read_clock_def get_db_def put_db_def comp_defs
  job_values_def checkpoint_updates_def

lemmas demo_eval = op_defs demo_store_def demo_job_def fresh_database_def zero_time_def state_of_def find_job_def
  has_id_def scan_string_def UnixNano_def wrap64_def update_row_def job_columns_def not_null_columns_def
  IsValidTransition_def validTransitions_def IsTerminal_def state_defs assigns_def

text \<open>The store after one job was created in it.\<close>

definition demo_created :: Store where
  "demo_created = exec_cmd (CCreate (demo_job ''a'')) demo_store"

lemma demo_created_facts:
  "quiet demo_created" "db_inv (db demo_created)" "state_of (db demo_created) ''a'' = Some StatePending"
  "job_cols (db demo_created) = job_columns"
proof -
  show "db_inv (db demo_created)" unfolding demo_created_def
    by (rule db_inv_exec) (simp_all add: demo_store_def demo_job_def fresh_job_def)
  show "state_of (db demo_created) ''a'' = Some StatePending"
    by (simp add: demo_created_def CreateJob_state_of) (simp add: demo_eval Let_def initial_state_def)
  show "quiet demo_created" "job_cols (db demo_created) = job_columns"
    by (simp_all add: demo_created_def demo_eval Let_def quiet_def)
qed

lemma demo_created_row:
  "find_job ''a'' (db demo_created) = Some (new_row (demo_job ''a'') (initial_state (demo_job ''a'')) 1000)"
proof -
  obtain s' where c: "CreateJob (demo_job ''a'') demo_store = (Inr (), s')"
    by (simp add: demo_eval Let_def)
  then have "s' = demo_created" by (simp add: demo_created_def)
  with CreateJob_find_job [OF c] show ?thesis by (simp add: demo_job_def demo_store_def)
qed

section \<open>Outcome and effect of a transition\<close>

text \<open>The columns the code's setters write, with values that are not NULL.\<close>

definition plain_sets :: "(string \<times> sqlval) list \<Rightarrow> bool" where
  "plain_sets kvs \<longleftrightarrow> (\<forall>(c, v) \<in> set kvs. c \<in> set setter_columns \<and> v \<noteq> Null)"

lemma setter_columns_job_columns:
  assumes "c \<in> set setter_columns"
  shows "c \<in> set job_columns" and "c \<noteq> ''id''"
  using assms by (auto simp: setter_columns_def job_columns_def)

lemma stamped_columns:
  "''state'' \<in> set job_columns" "''started_at'' \<in> set job_columns" "''finished_at'' \<in> set job_columns"
  by (simp_all add: job_columns_def)

lemma plain_sets_benign:
  assumes "plain_sets kvs"
  shows "benign (assigns kvs)"
proof (rule benign_assigns, rule ballI, rule notI)
  fix c
  assume c: "c \<in> set protected_columns" and "c \<in> fst ` set kvs"
  then obtain v where "(c, v) \<in> set kvs" by force
  with assms c show False unfolding plain_sets_def protected_columns_def by auto
qed

lemma set_update: "set (AList.update k v u) \<subseteq> insert (k, v) (set u)"
  by (induction u) auto

lemma set_assigns: "set (assigns kvs u) \<subseteq> set kvs \<union> set u"
proof (induction kvs arbitrary: u)
  case Nil
  then show ?case by (simp add: assigns_def)
next
  case (Cons kv kvs)
  have "assigns (kv # kvs) u = assigns kvs (AList.update (fst kv) (snd kv) u)"
    by (simp add: assigns_def case_prod_beta)
  with Cons.IH [of "AList.update (fst kv) (snd kv) u"] set_update [of "fst kv" "snd kv" u] show ?case by auto
qed

lemma update_job_quiet:
  assumes "quiet s" and "set job_columns \<subseteq> set (job_cols (db s))"
    and "\<forall>(c, v) \<in> set u. c \<in> set job_columns \<and> c \<noteq> ''id'' \<and> v \<noteq> Null"
  shows "\<exists>n s'. update_job i u s = (Inr n, s') \<and> quiet s'"
proof -
  have 1: "\<not> list_ex (\<lambda>(c, v). c \<notin> set (job_cols (db s))) u"
    using assms(2,3) by (auto simp: list_ex_iff)
  have 2: "map_of u c \<noteq> Some Null" "map_of u ''id'' = None" for c
    using assms(3) by (auto dest!: map_of_SomeD simp: map_of_eq_None_iff)
  show ?thesis
    using 1 2 assms(1)
    by (simp add: update_job_def bnd_def get_db_def put_db_def ret_def driver_call_def quiet_def list_ex_iff)
qed

lemma stamp_quiet:
  assumes "quiet s"
  obtains u' s' where "stamp next u s = (Inr u', s')" and "quiet s'" and "db s' = db s"
    and "set u' \<subseteq> insert (''started_at'', Integer (UnixNano (clock s (ticks s))))
       (insert (''finished_at'', Integer (UnixNano (clock s (ticks s)))) (set u))"
proof -
  let ?t = "Integer (UnixNano (clock s (ticks s)))"
  have "\<exists>u' s'. stamp next u s = (Inr u', s') \<and> quiet s' \<and> db s' = db s \<and>
      set u' \<subseteq> insert (''started_at'', ?t) (insert (''finished_at'', ?t) (set u))"
    using assms set_update [of "''started_at''" ?t u] set_update [of "''finished_at''" ?t u]
    by (auto simp: stamp_def bnd_def read_clock_def ret_def quiet_def)
  then show thesis using that by blast
qed

lemma transition_tx_outcome:
  assumes "quiet s" and "db_inv (db s)" and "set job_columns \<subseteq> set (job_cols (db s))" and "plain_sets kvs"
  shows "\<exists>s'. transition_tx i nxt [assigns kvs] s =
     (case state_of (db s) i of
        None \<Rightarrow> Inl ErrNotFound
      | Some cur \<Rightarrow> if IsValidTransition cur nxt then Inr () else Inl (ErrInvalidTransition cur nxt), s') \<and> quiet s'"
proof (cases "find_job i (db s)")
  case None
  with assms(1) show ?thesis
    by (simp add: transition_tx_def select_state_def bnd_def driver_call_def get_db_def fail_def quiet_def state_of_def)
next
  case (Some r)
  then have "row_inv r" using assms(2) find_job_has_id by (auto simp: db_inv_def)
  then obtain l where st: "r ''state'' = Text (state_name l)" by (rule row_invE)
  let ?s = "s\<lparr>calls := Suc (calls s)\<rparr>" and ?u = "assigns kvs [(''state'', Text nxt)]"
  have sel: "select_state i s = (Inr (state_name l), ?s)"
    using Some st assms(1) by (simp add: select_state_def bnd_def driver_call_def get_db_def lift_result_def quiet_def)
  have so: "state_of (db s) i = Some (state_name l)" using Some st by (simp add: state_of_def)
  show ?thesis
  proof (cases "IsValidTransition (state_name l) nxt")
    case False
    with sel so assms(1) show ?thesis by (simp add: transition_tx_def bnd_def fail_def quiet_def)
  next
    case True
    have q: "quiet ?s" using assms(1) by (simp add: quiet_def)
    from q obtain u' s1 where stm: "stamp nxt ?u ?s = (Inr u', s1)" "quiet s1" "db s1 = db s"
      and u': "set u' \<subseteq> insert (''started_at'', Integer (UnixNano (clock ?s (ticks ?s))))
       (insert (''finished_at'', Integer (UnixNano (clock ?s (ticks ?s)))) (set ?u))" by (rule stamp_quiet) simp
    have "\<forall>(c, v) \<in> set u'. c \<in> set job_columns \<and> c \<noteq> ''id'' \<and> v \<noteq> Null"
      using u' set_assigns [of kvs "[(''state'', Text nxt)]"] assms(4)
      by (auto simp: plain_sets_def setter_columns_job_columns stamped_columns dest!: subsetD)
        (blast dest: setter_columns_job_columns)+
    then obtain n s2 where up: "update_job i u' s1 = (Inr n, s2)" "quiet s2"
      using update_job_quiet [OF stm(2), of u' i] assms(3) stm(3) by auto
    then show ?thesis using True sel so stm
      by (simp add: transition_tx_def bnd_def read_clock_def insertEvent_def driver_call_def get_db_def put_db_def quiet_def)
  qed
qed

lemma Transition_result:
  assumes "quiet s" and "db_inv (db s)" and "set job_columns \<subseteq> set (job_cols (db s))" and "plain_sets kvs"
  shows "fst (Transition i nxt [assigns kvs] s) =
     (case state_of (db s) i of
        None \<Rightarrow> Inl ErrNotFound
      | Some cur \<Rightarrow> if IsValidTransition cur nxt then Inr () else Inl (ErrInvalidTransition cur nxt))"
proof -
  let ?s = "s\<lparr>calls := Suc (calls s)\<rparr>"
  let ?r = "case state_of (db s) i of None \<Rightarrow> Inl ErrNotFound
      | Some cur \<Rightarrow> if IsValidTransition cur nxt then Inr () else Inl (ErrInvalidTransition cur nxt)"
  obtain s' where tx: "transition_tx i nxt [assigns kvs] ?s = (?r, s')" "quiet s'"
    using transition_tx_outcome [of ?s kvs i nxt] assms by (auto simp: quiet_def)
  have "fst (boundary_checkpoint nxt x) = Inr ()" for x
    using boundary_checkpoint_db(1) by (metis prod.collapse)
  then have "fst (Transition i nxt [assigns kvs] s) = fst (with_tx (transition_tx i nxt [assigns kvs]) s)"
    unfolding Transition_def bnd_def by (auto split: prod.splits sum.splits)
  also have "\<dots> = ?r"
    using assms(1) tx
    by (auto simp: with_tx_def bnd_def driver_call_def ret_def quiet_def split: option.splits)
  finally show ?thesis .
qed

text \<open>
  C13: on a well-formed store whose driver does not fail, \<open>Transition\<close> returns exactly one of
  three outcomes: \<open>ErrNotFound\<close> for an unknown id, \<open>ErrInvalidTransition\<close> for a move the state
  machine does not allow, and success otherwise.
\<close>

theorem Transition_outcome:
  assumes "quiet s" and "db_inv (db s)" and "set job_columns \<subseteq> set (job_cols (db s))" and "plain_sets kvs"
  shows "fst (Transition i nxt [assigns kvs] s) =
     (case state_of (db s) i of
        None \<Rightarrow> Inl ErrNotFound
      | Some cur \<Rightarrow> if IsValidTransition cur nxt then Inr () else Inl (ErrInvalidTransition cur nxt))"
  using assms by (rule Transition_result)

theorem Transition_outcome_witness:
  "fst (Transition ''a'' StateRunning [assigns [(''container_id'', Text ''c0'')]] demo_created) = Inr () \<and>
   fst (Transition ''a'' StateCompleted [assigns [(''exit_code'', Integer 0)]] demo_created) =
     Inl (ErrInvalidTransition StatePending StateCompleted)"
  using Transition_outcome [of demo_created "[(''container_id'', Text ''c0'')]" "''a''" StateRunning]
    Transition_outcome [of demo_created "[(''exit_code'', Integer 0)]" "''a''" StateCompleted]
  by (simp add: demo_created_facts plain_sets_def setter_columns_def IsValidTransition_def validTransitions_def state_defs)

text \<open>
  C12: the transition relation of the code is the documented life cycle. Two states are related
  exactly when they are equal or the life cycle has a step between them, and the states the
  code calls terminal are exactly the ones without a step to another state.
\<close>

theorem IsValidTransition_lifecycle:
  "(IsValidTransition a b \<longleftrightarrow>
      a = b \<or> (\<exists>x y. a = state_name x \<and> b = state_name y \<and> lifecycle_step x y)) \<and>
   (IsTerminal a \<longleftrightarrow> (\<exists>x. a = state_name x \<and> \<not> (\<exists>y. lifecycle_step x y \<and> y \<noteq> x)))"
proof -
  have "\<not> (\<exists>y. lifecycle_step x y \<and> y \<noteq> x) \<longleftrightarrow> IsTerminal (state_name x)" for x
    unfolding IsTerminal_state_name lifecycle_step_iff by (cases x) (auto simp: active_def)
  then have "IsTerminal a \<longleftrightarrow> (\<exists>x. a = state_name x \<and> \<not> (\<exists>y. lifecycle_step x y \<and> y \<noteq> x))"
    by (metis IsTerminal_cases)
  with IsValidTransition_iff [of a b] show ?thesis by blast
qed

lemma map_of_rev_plain: "plain_sets kvs \<Longrightarrow> c \<in> set protected_columns \<Longrightarrow> map_of (rev kvs) c = None"
  by (auto simp: map_of_eq_None_iff plain_sets_def protected_columns_def)

lemma stamp_column_protected: "stamp_column n = Some c \<Longrightarrow> c \<in> set protected_columns \<and> c \<noteq> ''state''"
  by (auto simp: stamp_column_def split: if_splits)

lemma transition_updates_plain:
  assumes "plain_sets kvs"
    and "u = assigns (stamp_kvs nxt (assigns kvs [(''state'', Text nxt)]) t) (assigns kvs [(''state'', Text nxt)])"
  shows "map_of u c = (if c = ''state'' then Some (Text nxt)
     else if stamp_column nxt = Some c then Some (Integer (UnixNano t)) else map_of (rev kvs) c)"
proof -
  note none = map_of_rev_plain [OF assms(1)]
  have "map_of (assigns kvs [(''state'', Text nxt)]) d = (if d = ''state'' then Some (Text nxt) else map_of (rev kvs) d)" for d
    using none [of "''state''"] by (simp add: map_of_assigns map_add_def split: option.splits)
  then show ?thesis
    unfolding assms(2) map_of_assigns [of "stamp_kvs nxt u t" for u] using stamp_column_protected [of nxt] none
    by (auto simp: map_add_def stamp_kvs_def split: option.splits)
qed

lemma Transition_row:
  assumes "Transition i nxt [assigns kvs] s = (Inr x, s')" and "plain_sets kvs"
  shows "\<exists>r cur u ts. find_job i (db s) = Some r \<and> scan_string (r ''state'') = Inr cur \<and> IsValidTransition cur nxt \<and>
     find_job i (db s') = Some (\<lambda>c. if c = ''state'' then Text nxt
       else if stamp_column nxt = Some c then Integer (UnixNano (clock s (ticks s)))
       else case map_of (rev kvs) c of Some v \<Rightarrow> v | None \<Rightarrow> r c) \<and>
     (\<forall>j. j = i \<or> find_job j (db s') = find_job j (db s)) \<and>
     job_events (db s') = job_events (db s) @ [\<lparr>ev_id = event_seq (db s) + 1, ev_job_id = i, ev_type = ''transition'',
       ev_payload = marshal (transition_payload cur nxt u), ev_recorded_at = UnixNano ts\<rparr>]"
  using assms(1)
proof (rule Transition_Inr)
  fix r cur t u ts v
  assume r: "find_job i (db s) = Some r" "scan_string (r ''state'') = Inr cur" "IsValidTransition cur nxt"
    and t: "t = clock s (ticks s)"
    and u: "u = assigns (stamp_kvs nxt (fold (\<lambda>f u. f u) [assigns kvs] [(''state'', Text nxt)]) t)
      (fold (\<lambda>f u. f u) [assigns kvs] [(''state'', Text nxt)])"
    and d: "db s' = (add_event i ''transition'' (transition_payload cur nxt u) ts (set_job i u (db s)))\<lparr>wal_marker := v\<rparr>"
  have m: "map_of u c = (if c = ''state'' then Some (Text nxt)
     else if stamp_column nxt = Some c then Some (Integer (UnixNano t)) else map_of (rev kvs) c)" for c
    by (rule transition_updates_plain [OF assms(2)]) (simp add: u)
  have mid: "map_of u ''id'' = None" using map_of_rev_plain [OF assms(2), of "''id''"] by (simp add: m)
  have row: "update_row u r = (\<lambda>c. if c = ''state'' then Text nxt
       else if stamp_column nxt = Some c then Integer (UnixNano (clock s (ticks s)))
       else case map_of (rev kvs) c of Some v \<Rightarrow> v | None \<Rightarrow> r c)"
    by (rule ext) (simp add: update_row_def m t split: option.splits)
  show ?thesis
    using r row unfolding d find_job_frame find_job_set_job [OF mid]
    by (intro exI [of _ r] exI [of _ cur] exI [of _ u] exI [of _ ts])
      (auto simp: add_event_def set_job_def option.map_id)
qed



section \<open>Atomicity and histories\<close>

text \<open>
  C17: an operation that returns an error, whatever driver call failed and whichever check
  refused it, leaves every table as it was, the event log included.
\<close>

theorem failed_operations_change_nothing:
  "(isl (fst (CreateJob j s)) \<longrightarrow> db (snd (CreateJob j s)) = db s) \<and>
   (isl (fst (Transition i nxt setters s)) \<longrightarrow> db (snd (Transition i nxt setters s)) = db s) \<and>
   (isl (fst (RecordCheckpoint i epoch found path s)) \<longrightarrow>
      db (snd (RecordCheckpoint i epoch found path s)) = db s)"
  using CreateJob_Inl_db Transition_Inl_db RecordCheckpoint_Inl_db
  by (metis isl_def prod.collapse)

text \<open>The fifth driver call of the transition, the commit, fails.\<close>

theorem failed_operations_change_nothing_witness:
  "let s = demo_created\<lparr>faults := (\<lambda>n. if n = calls demo_created + 4 then Some ''disk full'' else None)\<rparr> in
   fst (Transition ''a'' StateRunning [] s) = Inl (DbError ''disk full'') \<and>
   db (snd (Transition ''a'' StateRunning [] s)) = db s"
proof -
  let ?s = "demo_created\<lparr>faults := (\<lambda>n. if n = calls demo_created + 4 then Some ''disk full'' else None)\<rparr>"
  have "fst (Transition ''a'' StateRunning [] ?s) = Inl (DbError ''disk full'')"
    by (simp add: demo_created_def demo_eval Let_def)
  with failed_operations_change_nothing [where i = "''a''" and nxt = StateRunning and setters = "[]" and s = ?s]
  show ?thesis by simp
qed

text \<open>
  C2: a job in a terminal state stays in it, whatever creations, transitions and checkpoints
  follow in whatever order, and whichever of their driver calls fail.
\<close>

theorem terminal_states_are_final:
  assumes "state_of (db s) i = Some a" and "IsTerminal a" and "\<forall>c \<in> set cs. admissible_cmd c"
  shows "state_of (db (fold exec_cmd cs s)) i = Some a"
  by (rule store_log.run_terminal [OF assms(3,1,2)])

theorem terminal_states_are_final_witness:
  "state_of (db (fold exec_cmd [CTransition ''a'' StateRunning [], CCheckpoint ''a'' 3 7 ''/state/checkpoint.dat'',
      CCreate (demo_job ''b'')] (snd (Transition ''a'' StateCancelled [] demo_created)))) ''a'' = Some StateCancelled"
proof (rule terminal_states_are_final)
  have "fst (Transition ''a'' StateCancelled [] demo_created) = Inr ()"
    by (simp add: demo_created_def demo_eval Let_def)
  then obtain s' where "Transition ''a'' StateCancelled [] demo_created = (Inr (), s')" by (metis prod.collapse)
  then show "state_of (db (snd (Transition ''a'' StateCancelled [] demo_created))) ''a'' = Some StateCancelled"
    by (simp add: Transition_state_of)
qed simp_all

text \<open>
  C15: from an empty database on, after any history of well-behaved commands: every job is in
  one of the eight states, ids are unique, a terminal job has a finishing time, a job that has
  run has a starting time, the four checkpoint columns are set together or not at all, and
  event ids increase strictly and refer to existing jobs.
\<close>

theorem reachable_tables_are_well_formed:
  assumes "db s = fresh_database" and "\<forall>c \<in> set cs. well_behaved c"
  shows "db_inv (db (fold exec_cmd cs s))"
proof -
  have "db_inv (db s) \<Longrightarrow> \<forall>c \<in> set cs. well_behaved c \<Longrightarrow> db_inv (db (fold exec_cmd cs s))"
    by (induction cs arbitrary: s) (simp_all add: db_inv_exec)
  with assms show ?thesis by simp
qed

theorem reachable_tables_are_well_formed_witness:
  "db_inv (db (fold exec_cmd [CCreate (demo_job ''a''), CTransition ''a'' StateRunning [],
     CCheckpoint ''a'' 3 7 ''/state/checkpoint.dat''] demo_store))"
  by (rule reachable_tables_are_well_formed) (simp_all add: demo_store_def fresh_job_def demo_job_def)

text \<open>
  C16: the audit trail is complete. After any admissible history from an empty database, every
  job has a life-cycle event, and its last one records the state the job is in.
\<close>

theorem audit_trail_records_the_state:
  assumes "db s = fresh_database" and "\<forall>c \<in> set cs. admissible_cmd c"
    and "state_of (db (fold exec_cmd cs s)) i = Some st"
  shows "\<exists>e. last (life_events (db (fold exec_cmd cs s)) i) = e \<and> e \<in> set (job_events (db (fold exec_cmd cs s))) \<and>
     ev_job_id e = i \<and> records_state e st"
proof -
  have "audit_inv (db s) \<Longrightarrow> \<forall>c \<in> set cs. admissible_cmd c \<Longrightarrow> audit_inv (db (fold exec_cmd cs s))"
    by (induction cs arbitrary: s) (simp_all add: audit_inv_exec)
  with assms(1,2) have "audit_inv (db (fold exec_cmd cs s))" by simp
  with assms(3) have l: "life_events (db (fold exec_cmd cs s)) i \<noteq> []"
    "records_state (last (life_events (db (fold exec_cmd cs s)) i)) st" by (simp_all add: audit_inv_def)
  moreover have "last (life_events (db (fold exec_cmd cs s)) i) \<in> set (life_events (db (fold exec_cmd cs s)) i)"
    using l(1) by simp
  ultimately show ?thesis by (auto simp: life_events_def)
qed

theorem audit_trail_records_the_state_witness:
  "\<exists>e. e \<in> set (job_events (db demo_created)) \<and> ev_job_id e = ''a'' \<and> records_state e StatePending"
  using audit_trail_records_the_state [of demo_store "[CCreate (demo_job ''a'')]" "''a''" StatePending]
    demo_created_facts(3) by (auto simp: demo_created_def demo_store_def)

section \<open>Reading back\<close>



lemma scanJob_checkpoint:
  assumes "scanJob r = Inr j"
  shows "scanJob (update_row (checkpoint_updates now e f p) r) =
     Inr (j\<lparr>job_LastCheckpointAt := Some (UnixNano now), job_LastCheckpointPath := Some p,
       job_LastCheckpointEpoch := Some e, job_LastCheckpointFound := Some f\<rparr>)"
  using assms unfolding scanJob_def
  by (elim andThen_InrE) (auto simp: update_row_def checkpoint_updates_def split: option.splits)

text \<open>
  C19: a recorded checkpoint is read back: \<open>GetJob\<close> returns the job as it was with the four
  checkpoint fields replaced by the epoch, the count, the path and the time of the call.
\<close>

theorem RecordCheckpoint_then_GetJob:
  assumes "RecordCheckpoint i epoch found path s = (Inr x, s')" and "faults s' (calls s') = None"
    and "GetJob i (s\<lparr>faults := (\<lambda>_. None)\<rparr>) = (Inr j, s0)"
  shows "fst (GetJob i s') = Inr (j\<lparr>job_LastCheckpointAt := Some (UnixNano (clock s (ticks s))),
     job_LastCheckpointPath := Some path, job_LastCheckpointEpoch := Some epoch, job_LastCheckpointFound := Some found\<rparr>)"
  using assms(1)
proof (rule RecordCheckpoint_Inr)
  fix now ts r
  assume r: "find_job i (db s) = Some r" and now: "now = clock s (ticks s)"
    and d: "db s' = add_event i ''checkpoint'' (checkpoint_payload epoch found path) ts
       (set_job i (checkpoint_updates now epoch found path) (db s))"
  have j: "scanJob r = Inr j" using assms(3) r by (simp add: GetJob_db)
  have "find_job i (db s') = Some (update_row (checkpoint_updates now epoch found path) r)"
    by (simp add: d find_job_set_job r)
  then show ?thesis using assms(2) scanJob_checkpoint [OF j] by (simp add: GetJob_db now)
qed

theorem RecordCheckpoint_then_GetJob_witness:
  "\<exists>s'. RecordCheckpoint ''a'' 3 7 ''/state/checkpoint.dat'' demo_created = (Inr (), s') \<and>
     fst (GetJob ''a'' s') = Inr ((created_job (demo_job ''a'') 1000)\<lparr>job_LastCheckpointAt := Some 1002,
       job_LastCheckpointPath := Some ''/state/checkpoint.dat'', job_LastCheckpointEpoch := Some 3,
       job_LastCheckpointFound := Some 7\<rparr>)"
proof -
  have "quiet demo_created" by (rule demo_created_facts)
  then have nf: "demo_created\<lparr>faults := (\<lambda>_. None)\<rparr> = demo_created" by (simp add: quiet_def)
  obtain s' where rc: "RecordCheckpoint ''a'' 3 7 ''/state/checkpoint.dat'' demo_created = (Inr (), s')"
    and f: "faults s' = (\<lambda>_. None)"
    by (simp add: demo_created_def demo_eval Let_def)
  have "scanJob (new_row (demo_job ''a'') (initial_state (demo_job ''a'')) 1000) = Inr (created_job (demo_job ''a'') 1000)"
    by (rule scanJob_new_row) (auto simp: demo_job_def intro!: utf8_ok_ascii)
  then obtain s0 where g: "GetJob ''a'' demo_created = (Inr (created_job (demo_job ''a'') 1000), s0)"
    using demo_created_facts(1) demo_created_row by (simp add: GetJob_db quiet_def)
  have "clock demo_created (ticks demo_created) = 1002" by (simp add: demo_created_def demo_eval Let_def)
  with RecordCheckpoint_then_GetJob [OF rc, unfolded nf f, OF refl g] rc show ?thesis
    by (simp add: UnixNano_def wrap64_def)
qed

section \<open>Write-ahead-log checkpoints\<close>

text \<open>Everything inside a transaction leaves the list of requested log checkpoints alone.\<close>

lemma keeps_pragmas_basic [intro!]:
  "keeps (\<lambda>s. pragmas s = ps) driver_call" "keeps (\<lambda>s. pragmas s = ps) read_clock"
  "keeps (\<lambda>s. pragmas s = ps) get_db" "keeps (\<lambda>s. pragmas s = ps) (put_db d)"
  by (auto simp: keeps_def driver_call_def read_clock_def get_db_def put_db_def split: option.splits)

lemma keeps_pragmas_statements [intro!]:
  "keeps (\<lambda>s. pragmas s = ps) (insertEvent i ty p ts)" "keeps (\<lambda>s. pragmas s = ps) (update_job i u)"
  "keeps (\<lambda>s. pragmas s = ps) (select_state i)" "keeps (\<lambda>s. pragmas s = ps) (stamp nxt u)"
  "keeps (\<lambda>s. pragmas s = ps) (set_wal_marker v)"
  unfolding insertEvent_def update_job_def select_state_def stamp_def set_wal_marker_def
  by (intro keeps_intros keeps_pragmas_basic)+

lemma keeps_pragmas_tx [intro!]: "keeps (\<lambda>s. pragmas s = ps) (transition_tx i nxt fs)"
  unfolding transition_tx_def
  by (intro keeps_bnd keeps_if keeps_fail keeps_pragmas_basic keeps_pragmas_statements)

lemma keeps_pragmas_with_tx:
  assumes "keeps (\<lambda>s. pragmas s = ps) body"
  shows "keeps (\<lambda>s. pragmas s = ps) (with_tx body)"
proof -
  have "keeps (\<lambda>s. pragmas s = ps) (\<lambda>s. case bnd body (\<lambda>a. bnd driver_call (\<lambda>_. ret a)) s of
      (Inl e, s') \<Rightarrow> (Inl e, s'\<lparr>db := db s\<rparr>) | (Inr a, s') \<Rightarrow> (Inr a, s'))"
    using keeps_bnd [OF assms, of "\<lambda>a. bnd driver_call (\<lambda>_. ret a)"]
    by (fastforce simp: keeps_def split: prod.splits sum.splits)
  then show ?thesis unfolding with_tx_def by auto
qed

lemma boundary_checkpoint_pragmas:
  "pragmas (snd (boundary_checkpoint nxt s)) = pragmas s @ [if IsTerminal nxt then FULL else PASSIVE]"
proof -
  let ?m = "if IsTerminal nxt then FULL else PASSIVE"
  let ?s = "s\<lparr>pragmas := pragmas s @ [?m]\<rparr>"
  have "keeps (\<lambda>s. pragmas s = pragmas ?s) (ignore (bnd read_clock (\<lambda>t. set_wal_marker (UnixNano t))) :: unit store_op)"
    by (intro keeps_ignore keeps_bnd) auto
  moreover have "pragmas (snd (driver_call ?s)) = pragmas ?s"
    by (simp add: driver_call_def split: option.splits)
  ultimately show ?thesis
    unfolding boundary_checkpoint_def wal_checkpoint_def
    by (auto simp: keeps_def split: prod.splits sum.splits)
qed

text \<open>
  C14: the log is checkpointed at every state boundary and only there: a successful
  \<open>Transition\<close> asks for exactly one checkpoint, \<open>FULL\<close> where the target is terminal and
  \<open>PASSIVE\<close> otherwise, and a failed one asks for none.
\<close>

theorem Transition_wal_discipline:
  "pragmas (snd (Transition i nxt setters s)) = pragmas s @
     (case fst (Transition i nxt setters s) of
        Inl e \<Rightarrow> []
      | Inr _ \<Rightarrow> [if IsTerminal nxt then FULL else PASSIVE])"
proof (cases "with_tx (transition_tx i nxt setters) s")
  case (Pair r s1)
  have "pragmas s1 = pragmas s"
    using keepsD [OF keeps_pragmas_with_tx [OF keeps_pragmas_tx], of s "pragmas s" i nxt setters] Pair by simp
  moreover have "fst (boundary_checkpoint nxt s1) = Inr ()"
    using boundary_checkpoint_db(1) by (metis prod.collapse)
  ultimately show ?thesis
    using Pair boundary_checkpoint_pragmas [of nxt s1] by (cases r) (simp_all add: Transition_def bnd_def)
qed

section \<open>Listing\<close>

text \<open>A store with two jobs, and one whose clock gave both the same creation time.\<close>

definition demo_two :: Store where
  "demo_two = exec_cmd (CCreate (demo_job ''b'')) demo_created"

definition demo_tie :: Store where
  "demo_tie = fold exec_cmd [CCreate (demo_job ''a''), CCreate (demo_job ''b'')] (demo_store\<lparr>clock := (\<lambda>_. 1000)\<rparr>)"

lemma CreateJob_row:
  assumes "CreateJob j s = (Inr x, s')"
  shows "jobs (db s') = jobs (db s) @ [new_row j (initial_state j)
    (if job_CreatedAt j = zero_time then clock s (ticks s) else job_CreatedAt j)]"
  using assms by (rule CreateJob_Inr) (simp add: add_event_def)

abbreviation demo_row :: "string \<Rightarrow> nanos \<Rightarrow> row" where
  "demo_row i t \<equiv> new_row (demo_job i) StatePending t"

lemma demo_job_simps:
  "job_ID (demo_job i) = i" "initial_state (demo_job i) = StatePending" "job_CreatedAt (demo_job i) = zero_time"
  by (simp_all add: demo_job_def initial_state_def)

lemma CreateJob_quiet:
  assumes "quiet s" and "find_job (job_ID j) (db s) = None"
  shows "\<exists>s'. CreateJob j s = (Inr (), s') \<and> quiet s' \<and> scan s' = scan s \<and> clock s' = clock s \<and>
     ticks s' = (if job_CreatedAt j = zero_time then Suc (Suc (ticks s)) else Suc (ticks s))"
proof -
  have "\<not> list_ex (\<lambda>r. r ''id'' = Text (job_ID j)) (jobs (db s))"
    using assms(2) by (auto simp: find_job_def find_None_iff has_id_def list_ex_iff)
  with assms(1) show ?thesis
    by (simp add: CreateJob_def Let_def with_tx_def create_tx_def insert_job_def insertEvent_def job_values_def
        driver_call_def read_clock_def get_db_def put_db_def wal_checkpoint_def comp_defs quiet_def)
qed

lemma demo_rows:
  "jobs (db demo_two) = [demo_row ''a'' 1000, demo_row ''b'' 1002]" "quiet demo_two" "scan demo_two = (\<lambda>rs. rs)"
  "jobs (db demo_tie) = [demo_row ''a'' 1000, demo_row ''b'' 1000]" "quiet demo_tie" "scan demo_tie = (\<lambda>rs. rs)"
proof -
  have two: "jobs (db s2) = [demo_row ''a'' (ck 0), demo_row ''b'' (ck 2)] \<and> quiet s2 \<and> scan s2 = (\<lambda>rs. rs)"
    if s2: "s2 = fold exec_cmd [CCreate (demo_job ''a''), CCreate (demo_job ''b'')] (demo_store\<lparr>clock := ck\<rparr>)" for s2 ck
  proof -
    let ?s = "demo_store\<lparr>clock := ck\<rparr>"
    have s: "quiet ?s" "jobs (db ?s) = []" "scan ?s = (\<lambda>rs. rs)" "ticks ?s = 0" "clock ?s = ck"
      by (simp_all add: demo_store_def quiet_def fresh_database_def)
    then obtain s1 where c1: "CreateJob (demo_job ''a'') ?s = (Inr (), s1)" "quiet s1" "scan s1 = (\<lambda>rs. rs)"
      "clock s1 = ck" "ticks s1 = 2"
      using CreateJob_quiet [of ?s "demo_job ''a''"] by (auto simp: find_job_def demo_job_simps)
    have r1: "jobs (db s1) = [demo_row ''a'' (ck 0)]"
      using CreateJob_row [OF c1(1)] s by (simp add: demo_job_simps)
    then obtain s3 where c2: "CreateJob (demo_job ''b'') s1 = (Inr (), s3)" "quiet s3" "scan s3 = (\<lambda>rs. rs)"
      using CreateJob_quiet [OF c1(2), of "demo_job ''b''"] c1(3) by (auto simp: find_job_def demo_job_simps)
    have "s3 = s2" using c1(1) c2(1) by (simp add: s2)
    with c2 CreateJob_row [OF c2(1)] c1 r1 show ?thesis by (simp add: demo_job_simps)
  qed
  have "demo_two = fold exec_cmd [CCreate (demo_job ''a''), CCreate (demo_job ''b'')] (demo_store\<lparr>clock := (\<lambda>n. 1000 + int n)\<rparr>)"
    by (simp add: demo_two_def demo_created_def demo_store_def)
  from two [OF this] show "jobs (db demo_two) = [demo_row ''a'' 1000, demo_row ''b'' 1002]" "quiet demo_two"
    "scan demo_two = (\<lambda>rs. rs)" by simp_all
  from two [OF demo_tie_def] show "jobs (db demo_tie) = [demo_row ''a'' 1000, demo_row ''b'' 1000]" "quiet demo_tie"
    "scan demo_tie = (\<lambda>rs. rs)" by simp_all
qed

lemma demo_row_readable: "readable (demo_row i t)"
proof -
  have "scanJob (new_row (demo_job i) (initial_state (demo_job i)) t) = Inr (created_job (demo_job i) t)"
    by (rule scanJob_new_row) (auto simp: demo_job_def intro!: utf8_ok_ascii)
  then show ?thesis by (simp add: readable_def demo_job_simps)
qed

lemma demo_row_columns:
  "created_at (demo_row i t) = UnixNano t" "demo_row i t ''state'' = Text StatePending"
  "demo_row i t ''id'' = Text i" "demo_row i t ''created_at'' = Integer (UnixNano t)"
  by (simp_all add: created_at_def new_row_def job_values_def demo_job_simps)

lemma readable_created_at:
  assumes "readable r" and "\<exists>n. r ''created_at'' = Integer n"
  shows "job_CreatedAt (job_of r) = created_at r"
  using scanJob_fields(3) [OF readable_scanJob [OF assms(1)]] assms(2) by (auto simp: created_at_def)

text \<open>
  C20: cursor pagination is complete. Where creation times are pairwise different, a client
  that follows the cursors from the first page, with any page size, gets every job that
  matches the filter exactly once, newest first, and comes to an end.
\<close>

theorem pagination_is_complete:
  assumes "listable s"
  shows "\<exists>js. follow_pages (Suc (length (jobs (db s)))) state '''' limit s = Some js \<and>
     mset js = mset (map job_of (filter (\<lambda>r. state = '''' \<or> r ''state'' = Text state) (jobs (db s)))) \<and>
     sorted_wrt (\<lambda>x y. job_CreatedAt x > job_CreatedAt y) js"
proof (intro exI conjI)
  let ?L = "listing state (db s)"
  show "follow_pages (Suc (length (jobs (db s)))) state '''' limit s = Some (map job_of ?L)"
    using assms by (rule follow_pages_all)
  have "list_where state '''' (db s) = (\<lambda>r. state = '''' \<or> r ''state'' = Text state)"
    by (auto simp: list_where_def)
  then have "mset ?L = mset (filter (\<lambda>r. state = '''' \<or> r ''state'' = Text state) (jobs (db s)))"
    by (simp add: listing_def)
  then show "mset (map job_of ?L) =
      mset (map job_of (filter (\<lambda>r. state = '''' \<or> r ''state'' = Text state) (jobs (db s))))" by simp
  have "sorted_wrt (\<lambda>x y. created_at y < created_at x) ?L"
    using listing_strict [of "db s" state] assms by (simp add: listable_def)
  moreover have "job_CreatedAt (job_of r) = created_at r" if "r \<in> set ?L" for r
    using that assms by (intro readable_created_at) (auto simp: listing_def listable_def)
  ultimately show "sorted_wrt (\<lambda>x y. job_CreatedAt x > job_CreatedAt y) (map job_of ?L)"
    by (simp add: sorted_wrt_map) (rule sorted_wrt_mono_rel; auto)
qed

lemma length_of_mset: "mset xs = mset ys \<Longrightarrow> length xs = length ys"
  by (metis size_mset)

theorem pagination_is_complete_witness:
  "\<exists>js. follow_pages 3 '''' '''' 1 demo_two = Some js \<and> length js = 2 \<and>
     sorted_wrt (\<lambda>x y. job_CreatedAt x > job_CreatedAt y) js"
proof -
  have c: "created_at (demo_row ''a'' 1000) = 1000" "created_at (demo_row ''b'' 1002) = 1002"
    by (simp_all add: demo_row_columns UnixNano_def wrap64_def)
  then have ne: "demo_row ''a'' 1000 \<noteq> demo_row ''b'' 1002" by auto
  have "listable demo_two" unfolding listable_def
    using ne c by (simp add: demo_rows demo_row_readable demo_row_columns has_id_def find_job_def inj_on_def)
  from pagination_is_complete [OF this, of "''''" 1] obtain js where
    js: "follow_pages 3 '''' '''' 1 demo_two = Some js" "sorted_wrt (\<lambda>x y. job_CreatedAt x > job_CreatedAt y) js"
    and m: "mset js = mset (map job_of [demo_row ''a'' 1000, demo_row ''b'' 1002])"
    by (auto simp: demo_rows numeral_3_eq_3)
  from length_of_mset [OF m] js show ?thesis by simp
qed


lemma JobsInStates_run:
  assumes "quiet s" and "\<forall>r \<in> set (jobs (db s)). readable r"
    and "mset (scan s (jobs (db s))) = mset (jobs (db s))" and "states \<noteq> []"
    and "rs = sort_key created_at (filter (\<lambda>r. r ''state'' \<in> Text ` set states) (scan s (jobs (db s))))"
  shows "JobsInStates states s = (Inr (map job_of rs), s\<lparr>calls := Suc (calls s)\<rparr>)"
    and "mset rs = mset (filter (\<lambda>r. r ''state'' \<in> Text ` set states) (jobs (db s)))"
proof -
  have "set rs \<subseteq> set (jobs (db s))" using mset_eq_set [OF assms(3)] assms(5) by auto
  then have "scanJobs rs = Inr (map job_of rs)" using assms(2) by (intro scanJobs_readable) blast
  then show "JobsInStates states s = (Inr (map job_of rs), s\<lparr>calls := Suc (calls s)\<rparr>)"
    using assms(1,4,5) by (simp add: JobsInStates_def bnd_def driver_call_quiet lift_result_def)
  show "mset rs = mset (filter (\<lambda>r. r ''state'' \<in> Text ` set states) (jobs (db s)))"
    using assms(3,5) by simp
qed

text \<open>
  C12: \<open>JobsInStates\<close>, the query behind the recovery scan, returns exactly the jobs that are in
  one of the given states, oldest first; with no states given it returns nothing.
\<close>

theorem JobsInStates_exact:
  assumes "quiet s" and "\<forall>r \<in> set (jobs (db s)). readable r \<and> (\<exists>n. r ''created_at'' = Integer n)"
    and "mset (scan s (jobs (db s))) = mset (jobs (db s))"
  shows "\<exists>js. fst (JobsInStates states s) = Inr js \<and>
     mset js = mset (map job_of (filter (\<lambda>r. r ''state'' \<in> Text ` set states) (jobs (db s)))) \<and>
     sorted (map job_CreatedAt js)"
proof (cases "states = []")
  case True
  then show ?thesis by (simp add: JobsInStates_def ret_def)
next
  case False
  let ?R = "sort_key created_at (filter (\<lambda>r. r ''state'' \<in> Text ` set states) (scan s (jobs (db s))))"
  have "\<forall>r \<in> set (jobs (db s)). readable r" using assms(2) by blast
  note run = JobsInStates_run [OF assms(1) this assms(3) False refl]
  have "set ?R \<subseteq> set (jobs (db s))" using mset_eq_set [OF assms(3)] by auto
  then have "map job_CreatedAt (map job_of ?R) = map created_at ?R"
    using assms(2) by (auto intro!: readable_created_at)
  then have "sorted (map job_CreatedAt (map job_of ?R))" by (metis sorted_sort_key)
  moreover have "mset (map job_of ?R) = mset (map job_of (filter (\<lambda>r. r ''state'' \<in> Text ` set states) (jobs (db s))))"
    using run(2) by (simp only: mset_map)
  ultimately show ?thesis using run(1) by (metis fst_conv)
qed

theorem JobsInStates_exact_witness:
  "\<exists>js. fst (JobsInStates [StateRunning, StatePending] demo_two) = Inr js \<and> length js = 2 \<and> sorted (map job_CreatedAt js)"
proof -
  obtain js where js: "fst (JobsInStates [StateRunning, StatePending] demo_two) = Inr js" "sorted (map job_CreatedAt js)"
    and m: "mset js = mset (map job_of [demo_row ''a'' 1000, demo_row ''b'' 1002])"
    using JobsInStates_exact [of demo_two "[StateRunning, StatePending]"]
    by (auto simp: demo_rows demo_row_readable demo_row_columns)
  from length_of_mset [OF m] js show ?thesis by simp
qed

text \<open>
  C13: \<open>RecentEvents\<close> returns the last events of the job, newest first, at most as many as the
  limit allows (25 where the limit is not in 1 to 200).
\<close>

theorem RecentEvents_latest:
  assumes "quiet s" and "db_inv (db s)"
  shows "fst (RecentEvents i limit s) = Inr (map to_event (take (event_limit limit)
     (rev (filter (\<lambda>e. ev_job_id e = i) (job_events (db s))))))"
  using RecentEvents_newest_first [OF assms] by simp

theorem RecentEvents_latest_witness:
  "fst (RecentEvents ''a'' 0 demo_created) = Inr (map to_event (job_events (db demo_created)))"
proof -
  have "rev (filter (\<lambda>e. ev_job_id e = ''a'') (job_events (db demo_created))) = job_events (db demo_created)"
    "length (job_events (db demo_created)) = 1"
    by (simp_all add: demo_created_def demo_eval Let_def)
  with RecentEvents_latest [OF demo_created_facts(1,2), of "''a''" 0] show ?thesis
    by (simp add: event_limit_def)
qed

text \<open>
  C15: opening a database that has no column \<open>assigned_controller_id\<close> adds it, empty, to every
  job and changes nothing else; opening one that has it, or opening it again, changes nothing.
\<close>

theorem Open_migrates_once:
  assumes "quiet env" and "path = '':memory:'' \<or> ensureDir mkdirAll path = None"
  shows "\<exists>s s'. Open mkdirAll path disk env = Inr s \<and> Open mkdirAll path (Some (db s)) s = Inr s' \<and> db s' = db s \<and>
     ''assigned_controller_id'' \<in> set (job_cols (db s)) \<and>
     job_events (db s) = job_events (schemaSQL disk) \<and>
     jobs (db s) = (if ''assigned_controller_id'' \<in> set (job_cols (schemaSQL disk)) then jobs (schemaSQL disk)
       else map (\<lambda>r. r(''assigned_controller_id'' := Null)) (jobs (schemaSQL disk)))"
proof -
  obtain s where s: "Open mkdirAll path disk env = Inr s" "quiet s"
    "db s = (if ''assigned_controller_id'' \<in> set (job_cols (schemaSQL disk)) then schemaSQL disk
       else (schemaSQL disk)\<lparr>job_cols := job_cols (schemaSQL disk) @ [''assigned_controller_id''],
         jobs := map (\<lambda>r. r(''assigned_controller_id'' := Null)) (jobs (schemaSQL disk))\<rparr>)"
    using Open_quiet [OF assms] by blast
  have col: "''assigned_controller_id'' \<in> set (job_cols (db s))" unfolding s(3) by simp
  obtain s' where "Open mkdirAll path (Some (db s)) s = Inr s'" "db s' = db s"
    using Open_quiet [OF s(2) assms(2), of "Some (db s)"] col by (auto simp: schemaSQL_def)
  with s(1) col show ?thesis by (intro exI [of _ s] exI [of _ s']) (simp add: s(3))
qed

theorem Open_migrates_once_witness:
  "\<exists>s. Open (\<lambda>_. None) ''data/controller.db'' (Some (fresh_database\<lparr>job_cols := butlast job_columns\<rparr>)) demo_store = Inr s \<and>
     ''assigned_controller_id'' \<in> set (job_cols (db s))"
  using Open_migrates_once [of demo_store "''data/controller.db''" "\<lambda>_. None"
      "Some (fresh_database\<lparr>job_cols := butlast job_columns\<rparr>)"]
  by (auto simp: ensureDir_def demo_store_def quiet_def Let_def)

end
