(* ===== verification/StoreClient.thy ===== *)
theory StoreClient
  imports StoreProps
begin

text \<open>
  What the components above the store rely on. A store that works (no driver fault, tables in
  their invariant, all columns present) stays so under every operation, and there each
  operation has one determined outcome. For stores that may fault, a property of the tables
  that every well-behaved command keeps is the interface \<open>store_inv\<close>: the supervisor, the
  recovery scan and the API keep each such property, proved once per operation.
\<close>

section \<open>A store that works\<close>

definition good :: "Store \<Rightarrow> bool" where
  "good s \<longleftrightarrow> quiet s \<and> db_inv (db s) \<and> set job_columns \<subseteq> set (job_cols (db s))"

lemma goodD: "good s \<Longrightarrow> quiet s" "good s \<Longrightarrow> db_inv (db s)" "good s \<Longrightarrow> set job_columns \<subseteq> set (job_cols (db s))"
  by (simp_all add: good_def)

lemma good_frame [simp]:
  "good (s\<lparr>calls := n\<rparr>) = good s" "good (s\<lparr>ticks := n\<rparr>) = good s"
  by (simp_all add: good_def quiet_def)

text \<open>The faults, the clock and the order of rows are the surroundings of the store: no operation changes them.\<close>

definition env_is :: "(nat \<Rightarrow> string option) \<Rightarrow> (nat \<Rightarrow> nanos) \<Rightarrow> (row list \<Rightarrow> row list) \<Rightarrow> Store \<Rightarrow> bool" where
  "env_is fl ck sc s \<longleftrightarrow> faults s = fl \<and> clock s = ck \<and> scan s = sc"

lemma keeps_env_basic [intro!]:
  "keeps (env_is fl ck sc) driver_call" "keeps (env_is fl ck sc) read_clock"
  "keeps (env_is fl ck sc) get_db" "keeps (env_is fl ck sc) (put_db d)"
  by (auto simp: env_is_def keeps_def driver_call_def read_clock_def get_db_def put_db_def split: option.splits)

lemma keeps_env_statements [intro!]:
  "keeps (env_is fl ck sc) (update_job i u)" "keeps (env_is fl ck sc) (insertEvent i ty p t)"
  "keeps (env_is fl ck sc) (select_state i)" "keeps (env_is fl ck sc) (stamp n u)"
  "keeps (env_is fl ck sc) (set_wal_marker v)" "keeps (env_is fl ck sc) (insert_job vals)"
  unfolding insertEvent_def update_job_def select_state_def stamp_def set_wal_marker_def insert_job_def Let_def
  by (intro keeps_intros keeps_env_basic)+

lemma keeps_env_wal [intro!]: "keeps (env_is fl ck sc) (wal_checkpoint m)"
  by (auto simp: env_is_def wal_checkpoint_def keeps_def driver_call_def bnd_def split: option.splits prod.splits sum.splits)

lemma keeps_env_with_tx [intro!]:
  assumes "keeps (env_is fl ck sc) body"
  shows "keeps (env_is fl ck sc) (with_tx body)"
proof -
  let ?P = "env_is fl ck sc"
  have k: "keeps ?P (bnd body (\<lambda>a. bnd driver_call (\<lambda>_. ret a)))" using assms by auto
  have "keeps ?P (\<lambda>s. case bnd body (\<lambda>a. bnd driver_call (\<lambda>_. ret a)) s of
       (Inl e, s') \<Rightarrow> (Inl e, s'\<lparr>db := db s\<rparr>) | (Inr a, s') \<Rightarrow> (Inr a, s'))"
    unfolding keeps_def
  proof (intro allI impI)
    fix s
    assume "?P s"
    then have "?P (snd (bnd body (\<lambda>a. bnd driver_call (\<lambda>_. ret a)) s))" by (rule keepsD [OF k])
    then show "?P (snd (case bnd body (\<lambda>a. bnd driver_call (\<lambda>_. ret a)) s of
       (Inl e, s') \<Rightarrow> (Inl e, s'\<lparr>db := db s\<rparr>) | (Inr a, s') \<Rightarrow> (Inr a, s')))"
      by (auto simp: env_is_def split: prod.splits sum.splits)
  qed
  then show ?thesis unfolding with_tx_def by auto
qed

lemma keeps_env_boundary [intro!]: "keeps (env_is fl ck sc) (boundary_checkpoint n)"
  unfolding keeps_def
proof (intro allI impI)
  fix s
  assume s: "env_is fl ck sc s"
  let ?m = "if IsTerminal n then FULL else PASSIVE"
  have k: "keeps (env_is fl ck sc) (ignore (bnd read_clock (\<lambda>t. set_wal_marker (UnixNano t))) :: unit store_op)"
    by (intro keeps_intros keeps_env_basic keeps_env_statements)
  obtain r s' where w: "wal_checkpoint ?m s = (r, s')" by fastforce
  then have s': "env_is fl ck sc s'" using keepsD [OF keeps_env_wal s, of ?m] by simp
  with w keepsD [OF k s'] show "env_is fl ck sc (snd (boundary_checkpoint n s))"
    by (cases r) (simp_all add: boundary_checkpoint_def)
qed

lemma Transition_env:
  "faults (snd (Transition i n fs s)) = faults s" "clock (snd (Transition i n fs s)) = clock s"
  "scan (snd (Transition i n fs s)) = scan s"
proof -
  have "keeps (env_is (faults s) (clock s) (scan s)) (Transition i n fs)"
    unfolding Transition_def transition_tx_def
    by (intro keeps_intros keeps_env_with_tx keeps_env_boundary keeps_env_basic keeps_env_statements)
  from keepsD [OF this, of s] show "faults (snd (Transition i n fs s)) = faults s"
    "clock (snd (Transition i n fs s)) = clock s" "scan (snd (Transition i n fs s)) = scan s" by (simp_all add: env_is_def)
qed

lemma RecordCheckpoint_env:
  "faults (snd (RecordCheckpoint i e f p s)) = faults s" "clock (snd (RecordCheckpoint i e f p s)) = clock s"
proof -
  have "keeps (env_is (faults s) (clock s) (scan s)) (RecordCheckpoint i e f p)"
    unfolding RecordCheckpoint_def
    by (intro keeps_intros keeps_env_with_tx keeps_env_basic keeps_env_statements)
  from keepsD [OF this, of s] show "faults (snd (RecordCheckpoint i e f p s)) = faults s"
    "clock (snd (RecordCheckpoint i e f p s)) = clock s" by (simp_all add: env_is_def)
qed

lemma Transition_job_cols:
  "job_cols (db (snd (Transition i n fs s))) = job_cols (db s)"
proof (cases "Transition i n fs s")
  case (Pair r s')
  show ?thesis
  proof (cases r)
    case (Inl e)
    with Pair show ?thesis by (simp add: Transition_Inl_db)
  next
    case (Inr x)
    from Pair [unfolded Inr] Pair show ?thesis
      by (elim Transition_Inr) (simp add: add_event_def set_job_def)
  qed
qed

lemma RecordCheckpoint_job_cols: "job_cols (db (snd (RecordCheckpoint i e f p s))) = job_cols (db s)"
proof (cases "RecordCheckpoint i e f p s")
  case (Pair r s')
  show ?thesis
  proof (cases r)
    case (Inl e)
    with Pair show ?thesis by (simp add: RecordCheckpoint_Inl_db)
  next
    case (Inr x)
    from Pair [unfolded Inr] Pair show ?thesis
      by (elim RecordCheckpoint_Inr) (simp add: add_event_def set_job_def)
  qed
qed

lemma Transition_job_count: "length (jobs (db (snd (Transition i n fs s)))) = length (jobs (db s))"
proof (cases "Transition i n fs s")
  case (Pair r s')
  show ?thesis
  proof (cases r)
    case (Inl e)
    with Pair show ?thesis by (simp add: Transition_Inl_db)
  next
    case (Inr x)
    from Pair [unfolded Inr] Pair show ?thesis
      by (elim Transition_Inr) (simp add: add_event_def set_job_def)
  qed
qed

lemma good_Transition:
  assumes "good s" and "\<forall>f \<in> set fs. benign f"
  shows "good (snd (Transition i n fs s))"
  using assms db_inv_exec [of s "CTransition i n fs"]
  by (simp add: good_def quiet_def Transition_env Transition_job_cols)

lemma good_RecordCheckpoint: "good s \<Longrightarrow> good (snd (RecordCheckpoint i e f p s))"
  using db_inv_exec [of s "CCheckpoint i e f p"]
  by (simp add: good_def quiet_def RecordCheckpoint_env RecordCheckpoint_job_cols)

lemma Transition_no_setters: "Transition i n [] = Transition i n [assigns []]"
  by (simp add: Transition_def transition_tx_def assigns_def cong: if_cong)

lemma plain_sets_simps [simp]:
  "plain_sets []"
  "plain_sets ((c, v) # kvs) \<longleftrightarrow> c \<in> set setter_columns \<and> v \<noteq> Null \<and> plain_sets kvs"
  by (auto simp: plain_sets_def)

text \<open>On a store that works, an allowed transition is made and any other is refused.\<close>

lemma Transition_goodE:
  assumes "good s" and "plain_sets kvs" and "state_of (db s) i = Some cur" and "IsValidTransition cur n"
  obtains s' r where "Transition i n [assigns kvs] s = (Inr (), s')" and "good s'"
    and "find_job i (db s) = Some r"
    and "find_job i (db s') = Some (\<lambda>c. if c = ''state'' then Text n
       else if stamp_column n = Some c then Integer (UnixNano (clock s (ticks s)))
       else case map_of (rev kvs) c of Some v \<Rightarrow> v | None \<Rightarrow> r c)"
    and "state_of (db s') i = Some n" and "\<forall>j. j = i \<or> find_job j (db s') = find_job j (db s)"
proof -
  obtain a s' where t: "Transition i n [assigns kvs] s = (a, s')" by fastforce
  have "fst (Transition i n [assigns kvs] s) = Inr ()"
    using Transition_result [OF goodD [OF assms(1)] assms(2), of i n] assms(3,4) by simp
  with t have t': "Transition i n [assigns kvs] s = (Inr (), s')" by simp
  have g: "good s'" using good_Transition [OF assms(1), of "[assigns kvs]" i n] plain_sets_benign [OF assms(2)] t by simp
  from Transition_row [OF t' assms(2)] obtain r where r: "find_job i (db s) = Some r"
    and r': "find_job i (db s') = Some (\<lambda>c. if c = ''state'' then Text n
       else if stamp_column n = Some c then Integer (UnixNano (clock s (ticks s)))
       else case map_of (rev kvs) c of Some v \<Rightarrow> v | None \<Rightarrow> r c)"
    and o: "\<forall>j. j = i \<or> find_job j (db s') = find_job j (db s)" by blast
  have "state_of (db s') i = Some n" by (simp add: state_of_def r')
  from that [OF t' g r r' this o] show thesis .
qed

lemma Transition_good_refused:
  assumes "good s" and "plain_sets kvs" and "state_of (db s) i = Some cur" and "\<not> IsValidTransition cur n"
  shows "\<exists>s'. Transition i n [assigns kvs] s = (Inl (ErrInvalidTransition cur n), s') \<and> good s' \<and> db s' = db s"
proof -
  obtain a s' where t: "Transition i n [assigns kvs] s = (a, s')" by fastforce
  have "fst (Transition i n [assigns kvs] s) = Inl (ErrInvalidTransition cur n)"
    using Transition_result [OF goodD [OF assms(1)] assms(2), of i n] assms(3,4) by simp
  with t have t': "Transition i n [assigns kvs] s = (Inl (ErrInvalidTransition cur n), s')" by simp
  have "good s'" using good_Transition [OF assms(1), of "[assigns kvs]" i n] plain_sets_benign [OF assms(2)] t by simp
  with t' Transition_Inl_db [OF t'] show ?thesis by blast
qed

lemma GetJob_good:
  assumes "good s" and "find_job i (db s) = Some r" and "scanJob r = Inr j"
  shows "GetJob i s = (Inr j, s\<lparr>calls := Suc (calls s)\<rparr>)"
  using assms by (simp add: GetJob_db good_def quiet_def)

lemma scanJob_state: "scanJob r = Inr j \<Longrightarrow> scan_string (r ''state'') = Inr (job_State j)"
  unfolding scanJob_def by (elim andThen_InrE) (auto split: option.splits)

lemma state_of_scanned: "find_job i d = Some r \<Longrightarrow> scanJob r = Inr j \<Longrightarrow> state_of d i = Some (job_State j)"
  by (simp add: state_of_def scanJob_state)

section \<open>Properties of the tables that every client keeps\<close>

locale store_inv =
  fixes P :: "database \<Rightarrow> bool"
  assumes exec_keeps: "well_behaved c \<Longrightarrow> P (db s) \<Longrightarrow> P (db (exec_cmd c s))"
begin

lemma keeps_Transition: "plain_sets kvs \<Longrightarrow> keeps (\<lambda>s. P (db s)) (Transition i n [assigns kvs])"
  using exec_keeps [of "CTransition i n [assigns kvs]"] by (simp add: keeps_def plain_sets_benign)

lemma keeps_RecordCheckpoint: "keeps (\<lambda>s. P (db s)) (RecordCheckpoint i e f p)"
  using exec_keeps [of "CCheckpoint i e f p"] by (simp add: keeps_def)

lemma keeps_CreateJob: "fresh_job j \<Longrightarrow> keeps (\<lambda>s. P (db s)) (CreateJob j)"
  using exec_keeps [of "CCreate j"] by (simp add: keeps_def)

lemma keeps_GetJob: "keeps (\<lambda>s. P (db s)) (GetJob i)"
  by (auto simp: keeps_def GetJob_db split: option.splits)

lemma keeps_read_clock: "keeps (\<lambda>s. P (db s)) read_clock"
  by (simp add: keeps_def read_clock_def)

lemmas keeps_store = keeps_Transition keeps_RecordCheckpoint keeps_CreateJob keeps_GetJob keeps_read_clock

end

interpretation tables: store_inv "\<lambda>d. db_inv d \<and> audit_inv d"
  by unfold_locales (auto intro: db_inv_exec audit_inv_exec well_behaved_admissible)

interpretation finished: store_inv "\<lambda>d. \<exists>st. state_of d i = Some st \<and> IsTerminal st \<and> st = st0" for i st0
proof unfold_locales
  fix c and s :: Store
  assume "well_behaved c" and "\<exists>st. state_of (db s) i = Some st \<and> IsTerminal st \<and> st = st0"
  with store_log.exec_step [OF well_behaved_admissible] IsTerminal_stays
  show "\<exists>st. state_of (db (exec_cmd c s)) i = Some st \<and> IsTerminal st \<and> st = st0" by metis
qed

interpretation path: store_inv "\<lambda>d. \<exists>b. state_of d i = Some b \<and> IsValidTransition\<^sup>*\<^sup>* a b" for i a
proof unfold_locales
  fix c and s :: Store
  assume "well_behaved c" and "\<exists>b. state_of (db s) i = Some b \<and> IsValidTransition\<^sup>*\<^sup>* a b"
  with store_log.exec_step [OF well_behaved_admissible]
  show "\<exists>b. state_of (db (exec_cmd c s)) i = Some b \<and> IsValidTransition\<^sup>*\<^sup>* a b"
    by (metis rtranclp.rtrancl_into_rtrancl)
qed

end
