(* ===== verification/Docker.thy ===== *)
theory Docker
  imports Json
begin

text \<open>
  Model of \<open>internal/docker\<close>: the client that drives the \<open>docker\<close> command line. The command is a
  parameter: \<open>cli\<close> maps the arguments of one invocation and the state of the engine to an error
  or the standard output, and to the engine's new state. What the client does around it, the
  arguments it builds and the output it decodes, is the model.
\<close>

section \<open>The command and the client\<close>

text \<open>An invocation that fails does so with an error text and what it wrote to standard error.\<close>

record cmd_failure =
  exit_error :: string
  stderr :: string

type_synonym 'd cli = "string list \<Rightarrow> 'd \<Rightarrow> (cmd_failure + string) \<times> 'd"

datatype docker_error =
  BinaryNotFound string | CmdFailed string string string | EmptyContainerID | DecodeInspect | ContainerNotFound string

definition LabelJobID :: string where "LabelJobID = ''com.jobctl.job_id''"
definition LabelControllerPID :: string where "LabelControllerPID = ''com.jobctl.controller_pid''"
definition LabelCreatedAt :: string where "LabelCreatedAt = ''com.jobctl.created_at''"

text \<open>\<open>NewClient\<close>: the binary's name from the environment, looked up on the path (\<open>found\<close>).\<close>

definition NewClient :: "(string \<rightharpoonup> string) \<Rightarrow> (string \<Rightarrow> bool) \<Rightarrow> docker_error + string" where
  "NewClient env found =
     (let b0 = (case env ''JOBCTL_DOCKER_BIN'' of None \<Rightarrow> '''' | Some v \<Rightarrow> v);
          bin = (if b0 = '''' then ''docker'' else b0)
      in if found bin then Inr bin else Inl (BinaryNotFound bin))"

definition docker_Ping :: "'d cli \<Rightarrow> 'd \<Rightarrow> (docker_error + unit) \<times> 'd" where
  "docker_Ping cli d =
     (case cli [''version'', ''--format'', ''{{.Server.Version}}''] d of
        (Inl f, d') \<Rightarrow> (Inl (CmdFailed ''docker ping'' (exit_error f) (stderr f)), d')
      | (Inr _, d') \<Rightarrow> (Inr (), d'))"

section \<open>Starting a container\<close>

record BindMount =
  Host :: string
  Target :: string
  RW :: bool

text \<open>The labels are a Go map; here they are listed in the order its iteration visits them.\<close>

record RunOptions =
  Image :: string
  Name :: string
  Cmd :: "string list"
  Labels :: "(string \<times> string) list"
  Env :: "string list"
  BindMounts :: "BindMount list"
  CPUs :: string
  MemoryBytes :: int
  PidsLimit :: int
  NetworkMode :: string
  WorkingDir :: string

definition mount_arg :: "BindMount \<Rightarrow> string" where
  "mount_arg b = Host b @ '':'' @ Target b @ '':'' @ (if RW b then ''rw'' else ''ro'')"

definition run_args :: "RunOptions \<Rightarrow> string list" where
  "run_args opts =
     [''run'', ''-d'', ''--init''] @
     (if Name opts \<noteq> '''' then [''--name'', Name opts] else []) @
     concat (map (\<lambda>(k, v). [''--label'', k @ ''='' @ v]) (Labels opts)) @
     concat (map (\<lambda>e. [''-e'', e]) (Env opts)) @
     concat (map (\<lambda>b. [''-v'', mount_arg b]) (BindMounts opts)) @
     (if CPUs opts \<noteq> '''' then [''--cpus'', CPUs opts] else []) @
     (if MemoryBytes opts > 0 then [''--memory'', Itoa (MemoryBytes opts)] else []) @
     (if PidsLimit opts > 0 then [''--pids-limit'', Itoa (PidsLimit opts)] else []) @
     (if NetworkMode opts \<noteq> '''' then [''--network'', NetworkMode opts] else []) @
     (if WorkingDir opts \<noteq> '''' then [''-w'', WorkingDir opts] else []) @
     [Image opts] @ Cmd opts"

definition docker_Run :: "'d cli \<Rightarrow> RunOptions \<Rightarrow> 'd \<Rightarrow> (docker_error + string) \<times> 'd" where
  "docker_Run cli opts d =
     (case cli (run_args opts) d of
        (Inl f, d') \<Rightarrow> (Inl (CmdFailed ''docker run'' (exit_error f) (TrimSpace (stderr f))), d')
      | (Inr out, d') \<Rightarrow>
          (let i = TrimSpace out in if i = '''' then (Inl EmptyContainerID, d') else (Inr i, d')))"

section \<open>Decoding what inspect prints\<close>

text \<open>
  \<open>json.Unmarshal\<close> into the anonymous structs of the source: each struct is decoded key by key,
  \<open>null\<close> leaves it as it is, another type is an error.
\<close>

definition into_struct :: "('v \<Rightarrow> (string \<times> json) list \<Rightarrow> 'v option) \<Rightarrow> 'v \<Rightarrow> json \<Rightarrow> 'v option" where
  "into_struct into old v = (case v of JObj kvs \<Rightarrow> into old kvs | JNull \<Rightarrow> Some old | _ \<Rightarrow> None)"

record raw_state =
  rs_running :: bool
  rs_exit_code :: int
  rs_status :: string

definition state_fields :: "raw_state \<Rightarrow> (string \<times> json) list \<Rightarrow> raw_state option" where
  "state_fields old kvs =
     (case into_field into_bool (rs_running old) (field_vals ''Running'' kvs) of
        None \<Rightarrow> None
      | Some running \<Rightarrow>
          (case into_field into_int64 (rs_exit_code old) (field_vals ''ExitCode'' kvs) of
             None \<Rightarrow> None
           | Some code \<Rightarrow> Some (old\<lparr>rs_running := running, rs_exit_code := code\<rparr>)))"

definition status_fields :: "raw_state \<Rightarrow> (string \<times> json) list \<Rightarrow> raw_state option" where
  "status_fields old kvs =
     map_option (\<lambda>s. old\<lparr>rs_status := s\<rparr>) (into_field into_string (rs_status old) (field_vals ''Status'' kvs))"

definition label_fields :: "(string \<times> string) list \<Rightarrow> (string \<times> json) list \<Rightarrow> (string \<times> string) list option" where
  "label_fields old kvs = into_field into_string_map old (field_vals ''Labels'' kvs)"

record raw_container =
  rc_id :: string
  rc_image :: string
  rc_state :: raw_state
  rc_labels :: "(string \<times> string) list"

definition zero_raw :: raw_container where
  "zero_raw = \<lparr>rc_id = '''', rc_image = '''', rc_state = \<lparr>rs_running = False, rs_exit_code = 0, rs_status = ''''\<rparr>, rc_labels = []\<rparr>"

text \<open>The struct of \<open>Inspect\<close> reads the state's two fields, the one of \<open>ListByLabel\<close> its status and the image.\<close>

definition inspect_fields :: "raw_container \<Rightarrow> (string \<times> json) list \<Rightarrow> raw_container option" where
  "inspect_fields old kvs =
     (case into_field into_string (rc_id old) (field_vals ''Id'' kvs) of
        None \<Rightarrow> None
      | Some i \<Rightarrow>
          (case into_field (into_struct state_fields) (rc_state old) (field_vals ''State'' kvs) of
             None \<Rightarrow> None
           | Some s \<Rightarrow>
               (case into_field (into_struct label_fields) (rc_labels old) (field_vals ''Config'' kvs) of
                  None \<Rightarrow> None
                | Some ls \<Rightarrow> Some (old\<lparr>rc_id := i, rc_state := s, rc_labels := ls\<rparr>))))"

definition list_fields :: "raw_container \<Rightarrow> (string \<times> json) list \<Rightarrow> raw_container option" where
  "list_fields old kvs =
     (case into_field into_string (rc_id old) (field_vals ''Id'' kvs) of
        None \<Rightarrow> None
      | Some i \<Rightarrow>
          (case into_field into_string (rc_image old) (field_vals ''Image'' kvs) of
             None \<Rightarrow> None
           | Some im \<Rightarrow>
               (case into_field (into_struct status_fields) (rc_state old) (field_vals ''State'' kvs) of
                  None \<Rightarrow> None
                | Some s \<Rightarrow>
                    (case into_field (into_struct label_fields) (rc_labels old) (field_vals ''Config'' kvs) of
                       None \<Rightarrow> None
                     | Some ls \<Rightarrow> Some (old\<lparr>rc_id := i, rc_image := im, rc_state := s, rc_labels := ls\<rparr>)))))"

definition unmarshal_containers ::
  "(raw_container \<Rightarrow> (string \<times> json) list \<Rightarrow> raw_container option) \<Rightarrow> string \<Rightarrow> raw_container list option" where
  "unmarshal_containers into out =
     (case parse_json out of
        Some (JArr vs) \<Rightarrow> those (map (into_struct into zero_raw) vs)
      | Some JNull \<Rightarrow> Some []
      | _ \<Rightarrow> None)"

section \<open>The other operations\<close>

record Inspect =
  insp_ID :: string
  insp_Running :: bool
  insp_ExitCode :: int
  insp_Labels :: "(string \<times> string) list"

definition docker_Inspect :: "'d cli \<Rightarrow> string \<Rightarrow> 'd \<Rightarrow> (docker_error + Inspect) \<times> 'd" where
  "docker_Inspect cli containerID d =
     (case cli [''inspect'', containerID] d of
        (Inl f, d') \<Rightarrow> (Inl (CmdFailed ''docker inspect'' (exit_error f) (stderr f)), d')
      | (Inr out, d') \<Rightarrow>
          (case unmarshal_containers inspect_fields out of
             None \<Rightarrow> (Inl DecodeInspect, d')
           | Some [] \<Rightarrow> (Inl (ContainerNotFound containerID), d')
           | Some (r # _) \<Rightarrow>
               (Inr \<lparr>insp_ID = rc_id r, insp_Running = rs_running (rc_state r),
                  insp_ExitCode = rs_exit_code (rc_state r), insp_Labels = rc_labels r\<rparr>, d')))"

definition simple_cmd :: "string \<Rightarrow> string list \<Rightarrow> 'd cli \<Rightarrow> 'd \<Rightarrow> (docker_error + unit) \<times> 'd" where
  "simple_cmd what args cli d =
     (case cli args d of (Inl f, d') \<Rightarrow> (Inl (CmdFailed what (exit_error f) ''''), d') | (Inr _, d') \<Rightarrow> (Inr (), d'))"

text \<open>The grace period in whole seconds, at least one.\<close>

definition stop_secs :: "int \<Rightarrow> int" where
  "stop_secs grace = (let secs = grace div 1000000000 in if secs < 1 then 1 else secs)"

definition docker_Stop :: "'d cli \<Rightarrow> string \<Rightarrow> int \<Rightarrow> 'd \<Rightarrow> (docker_error + unit) \<times> 'd" where
  "docker_Stop cli containerID grace = simple_cmd ''stop'' [''stop'', ''-t'', Itoa (stop_secs grace), containerID] cli"

definition docker_Kill :: "'d cli \<Rightarrow> string \<Rightarrow> 'd \<Rightarrow> (docker_error + unit) \<times> 'd" where
  "docker_Kill cli containerID = simple_cmd ''kill'' [''kill'', containerID] cli"

definition docker_Remove :: "'d cli \<Rightarrow> string \<Rightarrow> 'd \<Rightarrow> (docker_error + unit) \<times> 'd" where
  "docker_Remove cli containerID = simple_cmd ''rm'' [''rm'', ''-f'', containerID] cli"

text \<open>\<open>FollowLogs\<close>: the start of the process that streams the log.\<close>

definition FollowLogs :: "'d cli \<Rightarrow> string \<Rightarrow> 'd \<Rightarrow> (docker_error + unit) \<times> 'd" where
  "FollowLogs cli containerID = simple_cmd ''logs'' [''logs'', ''--follow'', ''--timestamps=false'', containerID] cli"

record ContainerSummary =
  sum_ID :: string
  sum_Image :: string
  sum_State :: string
  sum_Labels :: "(string \<times> string) list"

definition label_filter :: "string \<Rightarrow> string \<Rightarrow> string" where
  "label_filter key val = (if val \<noteq> '''' then key @ ''='' @ val else key)"

definition to_summary :: "raw_container \<Rightarrow> ContainerSummary" where
  "to_summary r = \<lparr>sum_ID = rc_id r, sum_Image = rc_image r, sum_State = rs_status (rc_state r), sum_Labels = rc_labels r\<rparr>"

definition docker_ListByLabel :: "'d cli \<Rightarrow> string \<Rightarrow> string \<Rightarrow> 'd \<Rightarrow> (docker_error + ContainerSummary list) \<times> 'd" where
  "docker_ListByLabel cli key val d =
     (case cli [''ps'', ''-a'', ''--filter'', ''label='' @ label_filter key val, ''--format'', ''{{.ID}}''] d of
        (Inl f, d') \<Rightarrow> (Inl (CmdFailed ''docker ps'' (exit_error f) (stderr f)), d')
      | (Inr out, d') \<Rightarrow>
          (let ids = filter (\<lambda>l. l \<noteq> '''') (Split (TrimSpace out) (CHR 0x0A)) in
           if ids = [] then (Inr [], d')
           else
             (case cli (''inspect'' # ids) d' of
                (Inl f, d'') \<Rightarrow> (Inl (CmdFailed ''docker inspect bulk'' (exit_error f) ''''), d'')
              | (Inr iout, d'') \<Rightarrow>
                  (case unmarshal_containers list_fields iout of
                     None \<Rightarrow> (Inl DecodeInspect, d'')
                   | Some raw \<Rightarrow> (Inr (map to_summary raw), d'')))))"

text \<open>\<open>c.Labels[key]\<close>: the empty string where the label is missing.\<close>

definition label :: "ContainerSummary \<Rightarrow> string \<Rightarrow> string" where
  "label c key = (case map_of (sum_Labels c) key of None \<Rightarrow> '''' | Some v \<Rightarrow> v)"

end
