(* ===== verification/Config.thy ===== *)
theory Config
  imports GoLib
begin

text \<open>
  Model of \<open>internal/config\<close>: the configuration record and its loading from the environment,
  with \<open>time.ParseDuration\<close> as far as the code uses it. The float64 product that turns the
  fraction of a number into nanoseconds is the parameter \<open>fmul\<close>.
\<close>

section \<open>Durations\<close>

definition Nanosecond :: nat where "Nanosecond = 1"
definition Microsecond :: nat where "Microsecond = 1000"
definition Millisecond :: nat where "Millisecond = 1000000"
definition TimeSecond :: nat where "TimeSecond = 1000000000"
definition TimeMinute :: nat where "TimeMinute = 60000000000"
definition TimeHour :: nat where "TimeHour = 3600000000000"

definition unitMap :: "(string \<times> nat) list" where
  "unitMap =
     [(''ns'', Nanosecond), (''us'', Microsecond), ([CHR 0xC2, CHR 0xB5, CHR ''s''], Microsecond),
      ([CHR 0xCE, CHR 0xBC, CHR ''s''], Microsecond), (''ms'', Millisecond), (''s'', TimeSecond),
      (''m'', TimeMinute), (''h'', TimeHour)]"

definition max63 :: nat where
  "max63 = 9223372036854775808"

text \<open>The digits at the front as a number; \<open>None\<close> where it exceeds 2 to the 63.\<close>

definition leadingInt :: "string \<Rightarrow> (nat \<times> string) option" where
  "leadingInt s =
     (let v = digits_val (takeWhile is_digit s)
      in if v > max63 then None else Some (v, dropWhile is_digit s))"

text \<open>
  The digits after the point as a number and its scale; digits beyond the capacity of 63 bits
  are read and dropped.
\<close>

fun fraction_digits :: "string \<Rightarrow> nat \<Rightarrow> nat \<Rightarrow> bool \<Rightarrow> nat \<times> nat" where
  "fraction_digits [] f scale full = (f, scale)"
| "fraction_digits (c # cs) f scale full =
     (if full then fraction_digits cs f scale True
      else if f > (max63 - 1) div 10 then fraction_digits cs f scale True
      else let y = f * 10 + digit_val c in
        if y > max63 then fraction_digits cs f scale True
        else fraction_digits cs y (scale * 10) False)"

text \<open>One number with its unit: the value in nanoseconds and the rest of the text.\<close>

definition duration_term :: "(nat \<Rightarrow> nat \<Rightarrow> nat \<Rightarrow> nat) \<Rightarrow> string \<Rightarrow> (nat \<times> string) option" where
  "duration_term fmul s =
     (case leadingInt s of
        None \<Rightarrow> None
      | Some (v, s1) \<Rightarrow>
          let pre = takeWhile is_digit s;
              dot = HasPrefix s1 ''.'';
              post = (if dot then takeWhile is_digit (drop 1 s1) else '''');
              s2 = (if dot then dropWhile is_digit (drop 1 s1) else s1);
              (f, scale) = fraction_digits post 0 1 False;
              u = takeWhile (\<lambda>c. c \<noteq> CHR ''.'' \<and> \<not> is_digit c) s2;
              rest = dropWhile (\<lambda>c. c \<noteq> CHR ''.'' \<and> \<not> is_digit c) s2
          in if pre = '''' \<and> post = '''' then None
             else if u = '''' then None
             else case map_of unitMap u of
               None \<Rightarrow> None
             | Some unit \<Rightarrow>
                 if v > max63 div unit then None
                 else let w = v * unit + (if f > 0 then fmul f unit scale else 0)
                   in if w > max63 then None else Some (w, rest))"

lemma duration_term_shorter: "duration_term fmul s = Some (w, rest) \<Longrightarrow> length rest < length s"
proof -
  assume a: "duration_term fmul s = Some (w, rest)"
  let ?s1 = "dropWhile is_digit s"
  let ?s2 = "if HasPrefix ?s1 ''.'' then dropWhile is_digit (drop 1 ?s1) else ?s1"
  let ?P = "\<lambda>c. c \<noteq> CHR ''.'' \<and> \<not> is_digit c"
  from a have r: "rest = dropWhile ?P ?s2" and u: "takeWhile ?P ?s2 \<noteq> ''''"
    by (auto simp: duration_term_def leadingInt_def Let_def split: if_splits option.splits prod.splits)
  have "length (takeWhile ?P ?s2) + length rest = length ?s2"
    unfolding r by (metis length_append takeWhile_dropWhile_id)
  moreover have "length ?s2 \<le> length s"
    using length_dropWhile_le [of is_digit s] length_dropWhile_le [of is_digit "drop 1 ?s1"] by auto
  moreover have "0 < length (takeWhile ?P ?s2)" using u by blast
  ultimately show "length rest < length s" by linarith
qed

function duration_terms :: "(nat \<Rightarrow> nat \<Rightarrow> nat \<Rightarrow> nat) \<Rightarrow> string \<Rightarrow> nat \<Rightarrow> nat option" where
  "duration_terms fmul s d =
     (if s = '''' then Some d
      else case duration_term fmul s of
        None \<Rightarrow> None
      | Some (w, rest) \<Rightarrow> if d + w > max63 then None else duration_terms fmul rest (d + w))"
  by pat_completeness auto
termination
  by (relation "measure (\<lambda>(fmul, s, d). length s)") (auto dest: duration_term_shorter)

declare duration_terms.simps [simp del]

definition ParseDuration :: "(nat \<Rightarrow> nat \<Rightarrow> nat \<Rightarrow> nat) \<Rightarrow> string \<Rightarrow> int option" where
  "ParseDuration fmul s =
     (let neg = HasPrefix s ''-'';
          s1 = (if neg \<or> HasPrefix s ''+'' then drop 1 s else s)
      in if s1 = ''0'' then Some 0
         else if s1 = '''' then None
         else case duration_terms fmul s1 0 of
           None \<Rightarrow> None
         | Some d \<Rightarrow> if neg then Some (- int d) else if d > max63 - 1 then None else Some (int d))"

section \<open>The configuration\<close>

record controller_config =
  cc_Listen :: string
  cc_DBPath :: string
  cc_DefaultImage :: string
  cc_DefaultImageOverridden :: bool
  cc_WorkerStatePath :: string
  cc_HostStateDir :: string
  cc_GracePeriod :: int
  cc_ReconcileEvery :: int
  cc_NoDocker :: bool
  cc_RedisAddr :: string
  cc_ClusterKey :: string
  cc_ControllerID :: string
  cc_LeaseTTL :: int
  cc_RefreshEvery :: int
  cc_PollEvery :: int

text \<open>The environment: the value of a variable that is set.\<close>

type_synonym environment = "string \<rightharpoonup> string"

definition envOr :: "environment \<Rightarrow> string \<Rightarrow> string \<Rightarrow> string" where
  "envOr env k def = (case env k of Some v \<Rightarrow> if v \<noteq> '''' then v else def | None \<Rightarrow> def)"

definition envDur :: "(nat \<Rightarrow> nat \<Rightarrow> nat \<Rightarrow> nat) \<Rightarrow> environment \<Rightarrow> string \<Rightarrow> int \<Rightarrow> int" where
  "envDur fmul env k def =
     (case env k of
        None \<Rightarrow> def
      | Some v \<Rightarrow> if v = '''' then def else (case ParseDuration fmul v of None \<Rightarrow> def | Some d \<Rightarrow> d))"

definition envBool :: "environment \<Rightarrow> string \<Rightarrow> bool \<Rightarrow> bool" where
  "envBool env k def =
     (case env k of
        None \<Rightarrow> def
      | Some v \<Rightarrow> if v = '''' then def else (case ParseBool v of None \<Rightarrow> def | Some b \<Rightarrow> b))"

definition Load :: "(nat \<Rightarrow> nat \<Rightarrow> nat \<Rightarrow> nat) \<Rightarrow> environment \<Rightarrow> controller_config" where
  "Load fmul env =
     (let imgEnv = (case env ''JOBCTL_WORKER_IMAGE'' of Some v \<Rightarrow> v | None \<Rightarrow> '''');
          imgOverridden = (env ''JOBCTL_WORKER_IMAGE'' \<noteq> None \<and> imgEnv \<noteq> '''');
          secs = (\<lambda>n. n * int TimeSecond)
      in \<lparr>cc_Listen = envOr env ''JOBCTL_LISTEN'' '':8080'',
          cc_DBPath = envOr env ''JOBCTL_DB'' ''/var/lib/jobctl/jobs.db'',
          cc_DefaultImage = (if imgOverridden then imgEnv else ''jobctl/worker:latest''),
          cc_DefaultImageOverridden = imgOverridden,
          cc_WorkerStatePath = envOr env ''JOBCTL_WORKER_STATE_PATH'' ''/state/state.bin'',
          cc_HostStateDir = envOr env ''JOBCTL_HOST_STATE_DIR'' ''/var/lib/jobctl/state'',
          cc_GracePeriod = envDur fmul env ''JOBCTL_GRACE_PERIOD'' (secs 30),
          cc_ReconcileEvery = envDur fmul env ''JOBCTL_RECONCILE_EVERY'' (secs 10),
          cc_NoDocker = envBool env ''JOBCTL_NO_DOCKER'' False,
          cc_RedisAddr = envOr env ''JOBCTL_REDIS_ADDR'' '''',
          cc_ClusterKey = envOr env ''JOBCTL_CLUSTER_KEY'' ''cb:leader:lock'',
          cc_ControllerID = envOr env ''JOBCTL_CONTROLLER_ID'' '''',
          cc_LeaseTTL = envDur fmul env ''JOBCTL_LEASE_TTL'' (secs 30),
          cc_RefreshEvery = envDur fmul env ''JOBCTL_LEASE_REFRESH'' (secs 10),
          cc_PollEvery = envDur fmul env ''JOBCTL_LEASE_POLL'' (secs 5)\<rparr>)"

section \<open>Properties\<close>

lemma takeWhile_digits: "list_all is_digit ds \<Longrightarrow> \<not> is_digit c \<Longrightarrow>
    takeWhile is_digit (ds @ c # cs) = ds \<and> dropWhile is_digit (ds @ c # cs) = c # cs"
  by (induction ds) auto

lemma duration_term_seconds:
  assumes "n \<le> 9223372036"
  shows "duration_term fmul (nat_digits n @ ''s'') = Some (n * TimeSecond, '''')"
proof -
  let ?s = "nat_digits n @ ''s''"
  have nd: "\<not> is_digit (CHR ''s'')" by (simp add: is_digit_def)
  have tw: "takeWhile is_digit ?s = nat_digits n" "dropWhile is_digit ?s = ''s''"
    using takeWhile_digits [OF nat_digits_digits nd] by auto
  have "leadingInt ?s = Some (n, ''s'')"
    using assms unfolding leadingInt_def tw by (simp add: max63_def)
  moreover have "map_of unitMap ''s'' = Some TimeSecond" by (simp add: unitMap_def)
  moreover have "n \<le> max63 div TimeSecond" "n * TimeSecond \<le> max63"
    using assms by (simp_all add: max63_def TimeSecond_def)
  ultimately show ?thesis
    using nd by (simp add: duration_term_def tw HasPrefix_def Let_def)
qed

lemma nat_digits_hd_digit: "\<exists>c cs. nat_digits n = c # cs \<and> is_digit c"
  using nat_digits_digits [of n] nat_digits_nonempty [of n] by (cases "nat_digits n") auto

lemma ParseDuration_seconds:
  assumes "n \<le> 9223372036"
  shows "ParseDuration fmul (nat_digits n @ ''s'') = Some (int n * int TimeSecond)"
proof -
  obtain c cs where c: "nat_digits n = c # cs" "is_digit c" using nat_digits_hd_digit by blast
  then have sign: "\<not> HasPrefix (nat_digits n @ ''s'') ''-''" "\<not> HasPrefix (nat_digits n @ ''s'') ''+''"
    by (auto simp: HasPrefix_def is_digit_def)
  have nz: "nat_digits n @ ''s'' \<noteq> ''0''" using c(1) by (cases cs) auto
  have le: "n * TimeSecond \<le> max63 - 1" using assms by (simp add: max63_def TimeSecond_def)
  then have le': "n * TimeSecond \<le> max63" by simp
  have "duration_terms fmul (nat_digits n @ ''s'') 0 = Some (n * TimeSecond)"
    using le' duration_term_seconds [OF assms, of fmul] by (subst duration_terms.simps) (simp add: duration_terms.simps)
  then show ?thesis using sign nz le by (simp add: ParseDuration_def Let_def)
qed

text \<open>
  a duration given in whole seconds is honoured exactly, whatever the other settings: the
  lease, refresh and poll intervals, the grace period and the reconcile interval are the number
  given times a second.
\<close>

theorem Load_honours_seconds:
  assumes "n \<le> 9223372036" and "env v = Some (nat_digits n @ ''s'')"
  shows "(v = ''JOBCTL_LEASE_TTL'' \<longrightarrow> cc_LeaseTTL (Load fmul env) = int n * 1000000000) \<and>
     (v = ''JOBCTL_LEASE_REFRESH'' \<longrightarrow> cc_RefreshEvery (Load fmul env) = int n * 1000000000) \<and>
     (v = ''JOBCTL_LEASE_POLL'' \<longrightarrow> cc_PollEvery (Load fmul env) = int n * 1000000000) \<and>
     (v = ''JOBCTL_GRACE_PERIOD'' \<longrightarrow> cc_GracePeriod (Load fmul env) = int n * 1000000000) \<and>
     (v = ''JOBCTL_RECONCILE_EVERY'' \<longrightarrow> cc_ReconcileEvery (Load fmul env) = int n * 1000000000)"
proof -
  have "envDur fmul env v d = int n * 1000000000" for d
    using ParseDuration_seconds [OF assms(1), of fmul] assms(2) by (simp add: envDur_def TimeSecond_def)
  then show ?thesis by (auto simp: Load_def Let_def)
qed

theorem Load_honours_seconds_witness:
  "cc_LeaseTTL (Load (\<lambda>f u s. f * u div s) [''JOBCTL_LEASE_TTL'' \<mapsto> ''20s'']) = 20 * 1000000000"
proof -
  have d: "nat_digits 20 @ ''s'' = ''20s''" by code_simp
  show ?thesis
    using Load_honours_seconds [of 20 "[''JOBCTL_LEASE_TTL'' \<mapsto> ''20s'']" "''JOBCTL_LEASE_TTL''" "\<lambda>f u s. f * u div s"]
    by (simp add: d)
qed

end
