(* ===== verification/Supervisor.thy ===== *)
theory Supervisor
  imports StoreClient Docker Config
begin

text \<open>
  Model of \<open>internal/supervisor\<close>: starting a worker container for a job, following its log,
  cancelling, and the graceful shutdown. The supervisor's state holds the store, the state of
  the container engine (behind the command \<open>cli\<close> of the Docker client) and the trackers; the
  goroutine of a tracker is a sequence of steps (attach, one step per log line, close), so that
  other operations may run between them. Contexts are not modelled: no caller cancels one.
\<close>

section \<open>State and errors\<close>

text \<open>
  \<open>NilDereference\<close> is the panic of a method call on the nil Docker client, not an error value;
  \<open>StillWaiting\<close> is the outcome of a call that has not returned, as goroutines it waits for are
  still running.
\<close>

datatype sup_error =
  ErrNotLeader | NoDockerClient | StoreError store_error | BadStartState string State
| CreateStateDir string | DockerError docker_error | NilDereference | StillWaiting

text \<open>Where the goroutine of a tracker is; \<open>Scanning\<close> carries \<open>sawCompleted\<close>.\<close>

datatype stream_phase = Attaching | Scanning bool | Finished

record tracker =
  tr_jobID :: string
  tr_containerID :: string
  tr_phase :: stream_phase

text \<open>
  \<open>leaderCheck\<close> is the callback, its answer depending on when it is called (the \<open>n\<close>-th call
  returns \<open>f n\<close>). \<open>trackers\<close> lists every tracker made, and \<open>tracked\<close> maps a job to its tracker by
  position. \<open>map_order\<close> is the order in which iterating over a Go map visits its keys.
\<close>

record 'd Supervisor =
  sup_cfg :: controller_config
  sup_st :: Store
  sup_docker :: bool
  engine :: 'd
  sup_pid :: int
  leaderCheck :: "(nat \<Rightarrow> bool) option"
  checks :: nat
  sup_controllerID :: string
  tracked :: "(string \<times> nat) list"
  trackers :: "tracker list"
  map_order :: "string list \<Rightarrow> string list"

type_synonym ('d, 'a) sup_op = "('d Supervisor, sup_error, 'a) comp"

definition sup_New :: "controller_config \<Rightarrow> Store \<Rightarrow> bool \<Rightarrow> 'd \<Rightarrow> int \<Rightarrow> (string list \<Rightarrow> string list) \<Rightarrow> 'd Supervisor" where
  "sup_New c st dockerClient eng getpid order =
     \<lparr>sup_cfg = c, sup_st = st, sup_docker = dockerClient, engine = eng, sup_pid = getpid, leaderCheck = None,
      checks = 0, sup_controllerID = '''', tracked = [], trackers = [], map_order = order\<rparr>"

definition SetLeaderCheck :: "string \<Rightarrow> (nat \<Rightarrow> bool) \<Rightarrow> 'd Supervisor \<Rightarrow> 'd Supervisor" where
  "SetLeaderCheck ident check s = s\<lparr>sup_controllerID := ident, leaderCheck := Some check\<rparr>"

text \<open>A store operation, and a call on the Docker client, from the supervisor.\<close>

definition on_store :: "'a store_op \<Rightarrow> ('d, 'a) sup_op" where
  "on_store m s = (case m (sup_st s) of (r, t) \<Rightarrow> (map_sum StoreError id r, s\<lparr>sup_st := t\<rparr>))"

definition on_docker :: "('d \<Rightarrow> (docker_error + 'a) \<times> 'd) \<Rightarrow> ('d, 'a) sup_op" where
  "on_docker f s =
     (if sup_docker s then case f (engine s) of (r, d) \<Rightarrow> (map_sum DockerError id r, s\<lparr>engine := d\<rparr>)
      else (Inl NilDereference, s))"

text \<open>
  \<open>v, err := m(); if err != nil { onerr }; f(v)\<close>, where \<open>onerr\<close> returns from the function; a panic
  goes on. \<open>dropped\<close> is \<open>_ = m()\<close>, or an error that is only logged.
\<close>

definition handle :: "('d, 'a) sup_op \<Rightarrow> (sup_error \<Rightarrow> ('d, 'b) sup_op) \<Rightarrow> ('a \<Rightarrow> ('d, 'b) sup_op) \<Rightarrow> ('d, 'b) sup_op" where
  "handle m onerr f s =
     (case m s of
        (Inr a, s') \<Rightarrow> f a s'
      | (Inl e, s') \<Rightarrow> if e = NilDereference then (Inl e, s') else onerr e s')"

definition dropped :: "('d, 'a) sup_op \<Rightarrow> ('d, unit) sup_op" where
  "dropped m = handle m (\<lambda>_. ret ()) (\<lambda>_. ret ())"

text \<open>Reading and changing the supervisor's own fields.\<close>

definition with_state :: "('d Supervisor \<Rightarrow> ('d, 'a) sup_op) \<Rightarrow> ('d, 'a) sup_op" where
  "with_state f s = f s s"

definition modify :: "('d Supervisor \<Rightarrow> 'd Supervisor) \<Rightarrow> ('d, unit) sup_op" where
  "modify g s = (Inr (), g s)"

text \<open>Iteration over a Go map.\<close>

definition range_map :: "(string list \<Rightarrow> string list) \<Rightarrow> (string \<times> 'v) list \<Rightarrow> (string \<times> 'v) list" where
  "range_map order kvs =
     concat (map (\<lambda>k. case map_of kvs k of None \<Rightarrow> [] | Some v \<Rightarrow> [(k, v)]) (order (map fst kvs)))"

section \<open>Start\<close>

text \<open>\<open>argOr\<close>: the token after the first occurrence of the key that is not the last token.\<close>

fun argOr :: "string list \<Rightarrow> string \<Rightarrow> string \<Rightarrow> string" where
  "argOr (a # b # rest) key def = (if a = key then b else argOr (b # rest) key def)"
| "argOr _ key def = def"

definition check_leader :: "('d, bool) sup_op" where
  "check_leader = with_state (\<lambda>s.
     case leaderCheck s of
       None \<Rightarrow> ret True
     | Some f \<Rightarrow> bnd (modify (\<lambda>s. s\<lparr>checks := Suc (checks s)\<rparr>)) (\<lambda>_. ret (f (checks s))))"

definition start_cmd :: "controller_config \<Rightarrow> string \<Rightarrow> Job \<Rightarrow> string list" where
  "start_cmd c jobID job =
     (let path = cc_WorkerStatePath c;
          seed = argOr (job_Args job) ''--seed'' '''';
          sleep = argOr (job_Args job) ''--sleep-per-checkpoint-ms'' ''''
      in [''--worker'', argOr (job_Args job) ''--worker'' ''primes'',
          ''--job-id'', jobID,
          ''--limit'', argOr (job_Args job) ''--limit'' ''100000'',
          ''--checkpoint-every'', argOr (job_Args job) ''--checkpoint-every'' ''5000'',
          ''--output-state'', path] @
         (if seed \<noteq> '''' then [''--seed'', seed] else []) @
         (if sleep \<noteq> '''' then [''--sleep-per-checkpoint-ms'', sleep] else []) @
         (if job_State job = StateInterruptedResumable \<and> job_LastCheckpointPath job \<noteq> None
          then [''--resume-from'', path] else []))"

definition hostStateDir :: "controller_config \<Rightarrow> string \<Rightarrow> string" where
  "hostStateDir c jobID = PathJoin [cc_HostStateDir c, jobID]"

definition hostStateFile :: "controller_config \<Rightarrow> string \<Rightarrow> string" where
  "hostStateFile c jobID = PathJoin [hostStateDir c jobID, Base (cc_WorkerStatePath c)]"

definition stateMountTarget :: "controller_config \<Rightarrow> string" where
  "stateMountTarget c = (let t = Dir (cc_WorkerStatePath c) in if t = '''' then ''/state'' else t)"

definition start_opts :: "'d Supervisor \<Rightarrow> string \<Rightarrow> Job \<Rightarrow> nanos \<Rightarrow> RunOptions" where
  "start_opts s jobID job now =
     \<lparr>Image = job_Image job, Name = '''', Cmd = start_cmd (sup_cfg s) jobID job,
      Labels = range_map (map_order s)
        [(LabelJobID, jobID), (LabelControllerPID, Itoa (sup_pid s)), (LabelCreatedAt, Itoa (UnixNano now))],
      Env = [],
      BindMounts = [\<lparr>Host = hostStateDir (sup_cfg s) jobID, Target = stateMountTarget (sup_cfg s), RW = True\<rparr>],
      CPUs = ''1.0'', MemoryBytes = 256 * 1024 * 1024, PidsLimit = 64, NetworkMode = '''', WorkingDir = ''''\<rparr>"

text \<open>Everything before the container is launched; \<open>mkdirAll\<close> is the outcome of \<open>os.MkdirAll\<close>.\<close>

definition start_prepare :: "(string \<Rightarrow> string option) \<Rightarrow> string \<Rightarrow> ('d, RunOptions) sup_op" where
  "start_prepare mkdirAll jobID =
     bnd check_leader (\<lambda>leader.
     if \<not> leader then fail ErrNotLeader
     else with_state (\<lambda>s.
     if \<not> sup_docker s then fail NoDockerClient
     else bnd (on_store (GetJob jobID)) (\<lambda>job.
     if job_State job \<noteq> StatePending \<and> job_State job \<noteq> StateInterruptedResumable
     then fail (BadStartState jobID (job_State job))
     else case mkdirAll (hostStateDir (sup_cfg s) jobID) of
       Some e \<Rightarrow> fail (CreateStateDir e)
     | None \<Rightarrow> bnd (on_store read_clock) (\<lambda>now. ret (start_opts s jobID job now)))))"

definition running_sets :: "'d Supervisor \<Rightarrow> string \<Rightarrow> string \<Rightarrow> updates" where
  "running_sets s jobID containerID =
     [(''container_id'', Text containerID), (''controller_pid'', Integer (sup_pid s)),
      (''state_volume_path'', Text (hostStateFile (sup_cfg s) jobID))] @
     (if sup_controllerID s \<noteq> '''' then [(''assigned_controller_id'', Text (sup_controllerID s))] else [])"

definition track :: "string \<Rightarrow> string \<Rightarrow> ('d, unit) sup_op" where
  "track jobID containerID = modify (\<lambda>s.
     s\<lparr>tracked := AList.update jobID (length (trackers s)) (tracked s),
       trackers := trackers s @ [\<lparr>tr_jobID = jobID, tr_containerID = containerID, tr_phase = Attaching\<rparr>]\<rparr>)"

text \<open>Everything after the launch: the transition, and the removal of the container where it fails.\<close>

definition start_commit :: "'d cli \<Rightarrow> string \<Rightarrow> string \<Rightarrow> ('d, unit) sup_op" where
  "start_commit cli jobID containerID = with_state (\<lambda>s.
     handle (on_store (Transition jobID StateRunning [assigns (running_sets s jobID containerID)]))
       (\<lambda>e. bnd (dropped (on_docker (docker_Remove cli containerID))) (\<lambda>_. fail e))
       (\<lambda>_. track jobID containerID))"

definition Start :: "'d cli \<Rightarrow> (string \<Rightarrow> string option) \<Rightarrow> string \<Rightarrow> ('d, unit) sup_op" where
  "Start cli mkdirAll jobID =
     bnd (start_prepare mkdirAll jobID) (\<lambda>opts.
     bnd (on_docker (docker_Run cli opts)) (\<lambda>containerID.
     start_commit cli jobID containerID))"

definition AdoptRunning :: "string \<Rightarrow> string \<Rightarrow> ('d, unit) sup_op" where
  "AdoptRunning jobID containerID = track jobID containerID"

section \<open>The events a worker prints\<close>

text \<open>
  \<open>strconv.ParseFloat\<close> as \<open>encoding/json\<close> uses it: a literal is refused where it rounds to
  infinity, that is, where its value is at least halfway from the largest \<open>float64\<close> to 2 to
  the 1024. The digits and the decimal exponent of the literal are compared exactly.
\<close>

definition float_parts :: "string \<Rightarrow> nat \<times> int" where
  "float_parts lit =
     (let s = TrimPrefix lit ''-'';
          ip = takeWhile is_digit s; r = dropWhile is_digit s;
          dot = HasPrefix r ''.'';
          fr = (if dot then takeWhile is_digit (drop 1 r) else '''');
          r' = (if dot then dropWhile is_digit (drop 1 r) else r)
      in (digits_val (ip @ fr), (if r' = '''' then 0 else atoi_value (Atoi (drop 1 r'))) - int (length fr)))"

definition float64_ok :: "string \<Rightarrow> bool" where
  "float64_ok lit =
     (case float_parts lit of (m, e) \<Rightarrow>
        m = 0 \<or>
        (if 0 \<le> e then int m * 10 ^ nat e < (2 ^ 54 - 1) * 2 ^ 970
         else int m < (2 ^ 54 - 1) * 2 ^ 970 * 10 ^ nat (- e)))"

text \<open>A \<open>float64\<close> field; its value is never used, so the model keeps the literal.\<close>

definition into_float64 :: "string \<Rightarrow> json \<Rightarrow> string option" where
  "into_float64 old v =
     (case v of JNum lit \<Rightarrow> if float64_ok lit then Some lit else None | JNull \<Rightarrow> Some old | _ \<Rightarrow> None)"

record CheckpointEvent =
  ce_Type :: string
  ce_JobID :: string
  ce_Epoch :: int
  ce_Progress :: string
  ce_Found :: int
  ce_Next :: int
  ce_StatePath :: string
  ce_Recent :: "int list"

definition unmarshal_checkpoint :: "(string \<times> json) list \<Rightarrow> CheckpointEvent option" where
  "unmarshal_checkpoint kvs =
     (case into_field into_string '''' (field_vals ''type'' kvs) of None \<Rightarrow> None | Some ty \<Rightarrow>
     (case into_field into_string '''' (field_vals ''job_id'' kvs) of None \<Rightarrow> None | Some jid \<Rightarrow>
     (case into_field into_int64 0 (field_vals ''epoch'' kvs) of None \<Rightarrow> None | Some epoch \<Rightarrow>
     (case into_field into_float64 ''0'' (field_vals ''progress'' kvs) of None \<Rightarrow> None | Some progress \<Rightarrow>
     (case into_field into_int64 0 (field_vals ''found'' kvs) of None \<Rightarrow> None | Some found \<Rightarrow>
     (case into_field into_int64 0 (field_vals ''next'' kvs) of None \<Rightarrow> None | Some nxt \<Rightarrow>
     (case into_field into_string '''' (field_vals ''state_path'' kvs) of None \<Rightarrow> None | Some path \<Rightarrow>
     (case into_field into_int64_slice [] (field_vals ''recent'' kvs) of None \<Rightarrow> None | Some recent \<Rightarrow>
       Some \<lparr>ce_Type = ty, ce_JobID = jid, ce_Epoch = epoch, ce_Progress = progress, ce_Found = found,
         ce_Next = nxt, ce_StatePath = path, ce_Recent = recent\<rparr>))))))))"

text \<open>
  What one line of the log asks for. A line of type \<open>completed\<close> counts whether or not it
  decodes as a \<open>CompletedEvent\<close>; a line of type \<open>started\<close>, of another type, or one that is not
  a JSON object asks for nothing.
\<close>

datatype line_event = LineCheckpoint int int string | LineCompleted | LineIgnored

definition line_event :: "string \<Rightarrow> line_event" where
  "line_event raw =
     (let line = TrimSpace raw in
      if line = '''' \<or> \<not> HasPrefix line ''{'' then LineIgnored
      else case parse_json line of
        Some (JObj kvs) \<Rightarrow>
          (case into_field into_string '''' (field_vals ''type'' kvs) of
             None \<Rightarrow> LineIgnored
           | Some ty \<Rightarrow>
               if ty = ''checkpoint'' then
                 (case unmarshal_checkpoint kvs of
                    None \<Rightarrow> LineIgnored
                  | Some ev \<Rightarrow> LineCheckpoint (ce_Epoch ev) (ce_Found ev) (ce_StatePath ev))
               else if ty = ''completed'' then LineCompleted
               else LineIgnored)
      | _ \<Rightarrow> LineIgnored)"

section \<open>The goroutine of a tracker\<close>

definition markFailed :: "string \<Rightarrow> ('d, unit) sup_op" where
  "markFailed jobID = dropped (on_store (Transition jobID StateFailed []))"

definition set_phase :: "nat \<Rightarrow> stream_phase \<Rightarrow> 'd Supervisor \<Rightarrow> 'd Supervisor" where
  "set_phase k ph s = s\<lparr>trackers := (trackers s)[k := (trackers s ! k)\<lparr>tr_phase := ph\<rparr>]\<rparr>"

text \<open>\<open>runStream\<close> has returned: the job leaves \<open>tracked\<close>, whichever tracker it names there.\<close>

definition stream_done :: "nat \<Rightarrow> ('d, unit) sup_op" where
  "stream_done k = modify (\<lambda>s.
     (set_phase k Finished s)\<lparr>tracked := AList.delete (tr_jobID (trackers s ! k)) (tracked s)\<rparr>)"

definition stream_attach :: "'d cli \<Rightarrow> nat \<Rightarrow> ('d, unit) sup_op" where
  "stream_attach cli k = with_state (\<lambda>s.
     let t = trackers s ! k in
     handle (on_docker (FollowLogs cli (tr_containerID t)))
       (\<lambda>_. bnd (markFailed (tr_jobID t)) (\<lambda>_. stream_done k))
       (\<lambda>_. modify (set_phase k (Scanning False))))"

definition stream_line :: "nat \<Rightarrow> string \<Rightarrow> ('d, unit) sup_op" where
  "stream_line k raw = with_state (\<lambda>s.
     case line_event raw of
       LineCheckpoint epoch found path \<Rightarrow>
         dropped (on_store (RecordCheckpoint (tr_jobID (trackers s ! k)) epoch found path))
     | LineCompleted \<Rightarrow> modify (set_phase k (Scanning True))
     | LineIgnored \<Rightarrow> ret ())"

text \<open>The log has ended: the container's exit code decides.\<close>

definition after_exit :: "'d cli \<Rightarrow> string \<Rightarrow> string \<Rightarrow> bool \<Rightarrow> Inspect \<Rightarrow> ('d, unit) sup_op" where
  "after_exit cli jobID containerID sawCompleted insp =
     (if insp_Running insp then ret ()
      else
        bnd (dropped (on_store (Transition jobID
          (if insp_ExitCode insp = 0 \<or> sawCompleted then StateCompleted else StateFailed)
          [assigns [(''exit_code'', Integer (insp_ExitCode insp))]]))) (\<lambda>_.
        dropped (on_docker (docker_Remove cli containerID))))"

definition stream_close :: "'d cli \<Rightarrow> nat \<Rightarrow> bool \<Rightarrow> ('d, unit) sup_op" where
  "stream_close cli k sawCompleted = with_state (\<lambda>s.
     let t = trackers s ! k in
     handle (on_docker (docker_Inspect cli (tr_containerID t)))
       (\<lambda>_. bnd (markFailed (tr_jobID t)) (\<lambda>_. stream_done k))
       (\<lambda>insp. bnd (after_exit cli (tr_jobID t) (tr_containerID t) sawCompleted insp) (\<lambda>_. stream_done k)))"

text \<open>One step of the goroutine of tracker \<open>k\<close>, on what it meets next: a line or the end of the log.\<close>

datatype stimulus = LogLine string | LogEnd

definition stream_step :: "'d cli \<Rightarrow> nat \<Rightarrow> stimulus \<Rightarrow> ('d, unit) sup_op" where
  "stream_step cli k stim = with_state (\<lambda>s.
     if k < length (trackers s) then
       (case tr_phase (trackers s ! k) of
          Attaching \<Rightarrow> stream_attach cli k
        | Scanning saw \<Rightarrow> (case stim of LogLine raw \<Rightarrow> stream_line k raw | LogEnd \<Rightarrow> stream_close cli k saw)
        | Finished \<Rightarrow> ret ())
     else ret ())"

fun stream_steps :: "'d cli \<Rightarrow> (nat \<times> stimulus) list \<Rightarrow> ('d, unit) sup_op" where
  "stream_steps cli [] = ret ()"
| "stream_steps cli ((k, stim) # rest) = bnd (stream_step cli k stim) (\<lambda>_. stream_steps cli rest)"

text \<open>
  The tokens of \<open>bufio.Scanner\<close> with its buffer of at most 4 MiB: the lines without their
  terminator, up to the first that does not fit.
\<close>

definition drop_CR :: "string \<Rightarrow> string" where
  "drop_CR l = (if l \<noteq> [] \<and> last l = CHR 0x0D then butlast l else l)"

definition scan_lines :: "string \<Rightarrow> string list" where
  "scan_lines text =
     (let ls = Split text (CHR 0x0A); ls' = (if last ls = '''' then butlast ls else ls)
      in map drop_CR (takeWhile (\<lambda>l. length l < 4 * 1024 * 1024) ls'))"

text \<open>\<open>runStream\<close> undisturbed, on a log with the given text.\<close>

definition runStream :: "'d cli \<Rightarrow> nat \<Rightarrow> string \<Rightarrow> ('d, unit) sup_op" where
  "runStream cli k text =
     stream_steps cli ((k, LogLine '''') # map (\<lambda>l. (k, LogLine l)) (scan_lines text) @ [(k, LogEnd)])"

section \<open>Cancel and shutdown\<close>

definition Cancel :: "'d cli \<Rightarrow> string \<Rightarrow> ('d, unit) sup_op" where
  "Cancel cli jobID =
     bnd (on_store (GetJob jobID)) (\<lambda>job.
     case job_ContainerID job of
       None \<Rightarrow> on_store (Transition jobID StateCancelled [])
     | Some cid \<Rightarrow>
         bnd (with_state (\<lambda>s. dropped (on_docker (docker_Stop cli cid (cc_GracePeriod (sup_cfg s)))))) (\<lambda>_.
         on_store (Transition jobID StateCancelled [])))"

definition markInterrupted :: "string \<Rightarrow> bool \<Rightarrow> ('d, unit) sup_op" where
  "markInterrupted jobID simulatedFault =
     handle (on_store (GetJob jobID)) (\<lambda>_. ret ()) (\<lambda>job.
       if IsTerminal (job_State job) then ret ()
       else
         let target = (if job_LastCheckpointAt job = None then StateInterruptedUnresumable
                       else StateInterruptedResumable);
             target' = (if simulatedFault \<and> job_LastCheckpointAt job = None
                        then StateInterruptedUnresumable else target)
         in dropped (on_store (Transition jobID target' [])))"

text \<open>The trackers named in \<open>tracked\<close>, in the order the iteration visits them.\<close>

definition snapshot :: "'d Supervisor \<Rightarrow> nat list" where
  "snapshot s = map snd (range_map (map_order s) (tracked s))"

fun for_each :: "('a \<Rightarrow> ('d, unit) sup_op) \<Rightarrow> 'a list \<Rightarrow> ('d, unit) sup_op" where
  "for_each f [] = ret ()"
| "for_each f (x # xs) = bnd (f x) (\<lambda>_. for_each f xs)"

definition stop_tracked :: "'d cli \<Rightarrow> nat \<Rightarrow> ('d, unit) sup_op" where
  "stop_tracked cli k = with_state (\<lambda>s.
     dropped (on_docker (docker_Stop cli (tr_containerID (trackers s ! k)) (cc_GracePeriod (sup_cfg s)))))"

text \<open>
  Waiting for one tracker: \<open>acts\<close> is what the goroutines do until its \<open>done\<close> closes or the
  deadline passes; a tracker that is not done by then has its container killed.
\<close>

definition wait_or_kill :: "'d cli \<Rightarrow> nat \<times> (nat \<times> stimulus) list \<Rightarrow> ('d, unit) sup_op" where
  "wait_or_kill cli p =
     bnd (stream_steps cli (snd p)) (\<lambda>_. with_state (\<lambda>s.
       if tr_phase (trackers s ! fst p) = Finished then ret ()
       else dropped (on_docker (docker_Kill cli (tr_containerID (trackers s ! fst p))))))"

definition Wait :: "('d, unit) sup_op" where
  "Wait = with_state (\<lambda>s.
     if list_all (\<lambda>t. tr_phase t = Finished) (trackers s) then ret () else fail StillWaiting)"

text \<open>
  \<open>ShutdownGraceful\<close>. \<open>waits\<close> gives, tracker by tracker, what the goroutines do while it waits,
  nothing where it is too short, and \<open>rest\<close> what they do after the last deadline until \<open>s.wg.Wait()\<close> returns.
\<close>

definition ShutdownGraceful ::
  "'d cli \<Rightarrow> (nat \<times> stimulus) list list \<Rightarrow> (nat \<times> stimulus) list \<Rightarrow> bool \<Rightarrow> ('d, unit) sup_op" where
  "ShutdownGraceful cli waits rest simulatedFault = with_state (\<lambda>s.
     let ks = snapshot s in
     bnd (for_each (stop_tracked cli) ks) (\<lambda>_.
     bnd (for_each (wait_or_kill cli) (zip ks (waits @ replicate (length ks) []))) (\<lambda>_.
     bnd (stream_steps cli rest) (\<lambda>_.
     bnd Wait (\<lambda>_.
     for_each (\<lambda>k. markInterrupted (tr_jobID (trackers s ! k)) simulatedFault) ks)))))"

section \<open>What every operation keeps\<close>

abbreviation tables :: "'d Supervisor \<Rightarrow> database" where
  "tables s \<equiv> db (sup_st s)"

lemma keeps_on_store: "keeps (\<lambda>s. P (db s)) m \<Longrightarrow> keeps (\<lambda>s. P (tables s)) (on_store m)"
  by (auto simp: keeps_def on_store_def split: prod.splits)

lemma keeps_on_docker: "keeps (\<lambda>s. P (tables s)) (on_docker f)"
  by (auto simp: keeps_def on_docker_def split: prod.splits)

lemma keeps_handle:
  assumes "keeps P m" and "\<And>e. keeps P (h e)" and "\<And>a. keeps P (f a)"
  shows "keeps P (handle m h f)"
  unfolding keeps_def
proof (intro allI impI)
  fix s
  assume s: "P s"
  obtain r s' where m: "m s = (r, s')" by fastforce
  with keepsD [OF assms(1) s] have "P s'" by simp
  with keepsD [OF assms(2)] keepsD [OF assms(3)] m show "P (snd (handle m h f s))"
    by (cases r) (simp_all add: handle_def)
qed

lemma keeps_with_state: "(\<And>s. keeps P (f s)) \<Longrightarrow> keeps P (with_state f)"
  by (simp add: keeps_def with_state_def)

lemma keeps_modify: "(\<And>s. sup_st (g s) = sup_st s) \<Longrightarrow> keeps (\<lambda>s. P (tables s)) (modify g)"
  by (simp add: keeps_def modify_def)

lemma keeps_dropped: "keeps P m \<Longrightarrow> keeps P (dropped m)"
  unfolding dropped_def by (intro keeps_handle keeps_ret)

lemma keeps_for_each: "(\<And>x. keeps P (f x)) \<Longrightarrow> keeps P (for_each f xs)"
  by (induction xs) auto

lemma sup_st_set_phase [simp]: "sup_st (set_phase k ph s) = sup_st s"
  by (simp add: set_phase_def)

lemmas keeps_sup = keeps_intros keeps_on_docker keeps_handle keeps_with_state keeps_dropped keeps_for_each

lemma keeps_track: "keeps (\<lambda>s. P (tables s)) (track i c)"
  unfolding track_def by (rule keeps_modify) simp

lemma keeps_stream_done: "keeps (\<lambda>s. P (tables s)) (stream_done k)"
  unfolding stream_done_def by (rule keeps_modify) simp

lemma keeps_check_leader: "keeps (\<lambda>s. P (tables s)) check_leader"
  unfolding check_leader_def by (intro keeps_sup keeps_modify) simp

lemma plain_running_sets: "plain_sets (running_sets s i c)"
  by (simp add: running_sets_def setter_columns_def)

context store_inv
begin

lemma keeps_on_Transition: "plain_sets kvs \<Longrightarrow> keeps (\<lambda>s. P (tables s)) (on_store (Transition i n [assigns kvs]))"
  by (intro keeps_on_store keeps_store)

lemma keeps_plain_Transition: "keeps (\<lambda>s. P (tables s)) (on_store (Transition i n []))"
  unfolding Transition_no_setters by (rule keeps_on_Transition) simp

lemma keeps_on_reads:
  "keeps (\<lambda>s. P (tables s)) (on_store (GetJob i))" "keeps (\<lambda>s. P (tables s)) (on_store read_clock)"
  "keeps (\<lambda>s. P (tables s)) (on_store (RecordCheckpoint i e f q))"
  by (intro keeps_on_store keeps_store)+

lemma keeps_start_prepare: "keeps (\<lambda>s. P (tables s)) (start_prepare mkdirAll i)"
  unfolding start_prepare_def by (intro keeps_sup keeps_check_leader keeps_on_reads)

lemma keeps_start_commit: "keeps (\<lambda>s. P (tables s)) (start_commit cli i c)"
  unfolding start_commit_def by (intro keeps_sup keeps_on_Transition plain_running_sets keeps_track)

lemma keeps_Start: "keeps (\<lambda>s. P (tables s)) (Start cli mkdirAll i)"
  unfolding Start_def by (intro keeps_sup keeps_start_prepare keeps_start_commit)

lemma keeps_markFailed: "keeps (\<lambda>s. P (tables s)) (markFailed i)"
  unfolding markFailed_def by (intro keeps_sup keeps_plain_Transition)

lemma keeps_after_exit: "keeps (\<lambda>s. P (tables s)) (after_exit cli i c saw insp)"
  unfolding after_exit_def by (intro keeps_sup keeps_on_Transition) (simp add: setter_columns_def)

lemma keeps_Cancel: "keeps (\<lambda>s. P (tables s)) (Cancel cli i)"
  unfolding Cancel_def by (intro keeps_sup keeps_on_reads keeps_plain_Transition)

lemma keeps_markInterrupted: "keeps (\<lambda>s. P (tables s)) (markInterrupted i fault)"
  unfolding markInterrupted_def Let_def by (intro keeps_sup keeps_on_reads keeps_plain_Transition)

lemma keeps_stream_attach: "keeps (\<lambda>s. P (tables s)) (stream_attach cli k)"
  unfolding stream_attach_def Let_def by (intro keeps_sup keeps_markFailed keeps_stream_done keeps_modify) simp

lemma keeps_stream_line: "keeps (\<lambda>s. P (tables s)) (stream_line k raw)"
  unfolding stream_line_def
  by (cases "line_event raw") (auto intro!: keeps_sup keeps_on_reads keeps_modify)

lemma keeps_stream_close: "keeps (\<lambda>s. P (tables s)) (stream_close cli k saw)"
  unfolding stream_close_def Let_def by (intro keeps_sup keeps_markFailed keeps_stream_done keeps_after_exit)

lemma keeps_stream_step: "keeps (\<lambda>s. P (tables s)) (stream_step cli k stim)"
  unfolding stream_step_def
  by (intro keeps_sup)
    (auto intro: keeps_stream_attach keeps_stream_line keeps_stream_close split: stream_phase.splits stimulus.splits)

lemma keeps_stream_steps: "keeps (\<lambda>s. P (tables s)) (stream_steps cli acts)"
  by (induction acts) (auto intro!: keeps_sup keeps_stream_step)

lemma keeps_ShutdownGraceful: "keeps (\<lambda>s. P (tables s)) (ShutdownGraceful cli waits rest fault)"
  unfolding ShutdownGraceful_def stop_tracked_def wait_or_kill_def Wait_def Let_def
  by (intro keeps_sup keeps_stream_steps keeps_markInterrupted)

end

end
