(* ===== verification/JsonFacts.thy ===== *)
theory JsonFacts
  imports Json
begin

text \<open>
  The parser of theory \<open>Json\<close> runs on fuel. Every result leaves a shorter text, so twice the length
  of the text is enough: with more fuel the result is the same. No theorem on decoded texts
  holds only because the fuel ran out. For names in lower case the selection of a field, which
  folds case, is equality.
\<close>

section \<open>Every result leaves a shorter text\<close>

lemma cons_str_SomeE:
  assumes "cons_str p x = Some (t, r)" obtains t' where "x = Some (t', r)"
  using assms by (auto simp: cons_str_def)

lemma dec_str_shorter: "dec_str s = Some (t, r) \<Longrightarrow> length r < length s"
proof (induction s arbitrary: t r rule: dec_str.induct)
  case (1 s)
  from 1(5) obtain c cs where s: "s = c # cs" by (cases s) (simp_all add: dec_str.simps)
  consider (q) "c = quote_char" | (esc) "c \<noteq> quote_char" "c = backslash" | (ctl) "c \<noteq> quote_char" "c \<noteq> backslash" by blast
  then show ?case
  proof cases
    case q
    with 1(5) s show ?thesis by (subst (asm) dec_str.simps) simp
  next
    case esc
    with 1(5) s obtain e r0 where cs: "cs = e # r0" by (cases cs) (simp_all add: dec_str.simps)
    show ?thesis
    proof (cases "e = CHR ''u''")
      case True
      with 1(5) s esc cs obtain t0 r1 where d: "dec_u r0 = Some (t0, r1)" "cons_str t0 (dec_str r1) = Some (t, r)"
        by (subst (asm) dec_str.simps) (auto split: option.splits)
      from d(2) obtain t' where "dec_str r1 = Some (t', r)" by (rule cons_str_SomeE)
      from 1(1) [OF s esc cs True d(1) refl this] dec_u_shorter [OF d(1)] s cs show ?thesis by simp
    next
      case False
      with 1(5) s esc cs obtain x where d: "simple_escape e = Some x" "cons_str [x] (dec_str r0) = Some (t, r)"
        by (subst (asm) dec_str.simps) (auto split: option.splits)
      from d(2) obtain t' where "dec_str r0 = Some (t', r)" by (rule cons_str_SomeE)
      from 1(2) [OF s esc cs False d(1) this] s cs show ?thesis by simp
    qed
  next
    case ctl
    with 1(5) s have b: "\<not> byte c < 32" by (subst (asm) dec_str.simps) (auto split: if_splits)
    show ?thesis
    proof (cases "utf8_len s = 0")
      case True
      with 1(5) s ctl b have "cons_str replacement (dec_str cs) = Some (t, r)" by (subst (asm) dec_str.simps) simp
      then obtain t' where "dec_str cs = Some (t', r)" by (rule cons_str_SomeE)
      from 1(3) [OF s ctl b True this] s show ?thesis by simp
    next
      case False
      with 1(5) s ctl b have "cons_str (take (utf8_len s) s) (dec_str (drop (utf8_len s) s)) = Some (t, r)"
        by (subst (asm) dec_str.simps) simp
      then obtain t' where "dec_str (drop (utf8_len s) s) = Some (t', r)" by (rule cons_str_SomeE)
      from 1(4) [OF s ctl b False this] s show ?thesis by simp
    qed
  qed
qed

lemma skip_ws_length: "length (skip_ws s) \<le> length s"
  by (simp add: skip_ws_def length_dropWhile_le)

lemma skip_ws_Cons: "skip_ws s = c # cs \<Longrightarrow> length cs < length s"
  using skip_ws_length [of s] by simp

lemma number_prefix_shorter:
  assumes "number_prefix s = Some (lit, r)"
  shows "length r < length s"
proof -
  define s1 where "s1 = (if HasPrefix s ''-'' then drop 1 s else s)"
  define ip where "ip = (if HasPrefix (takeWhile is_digit s1) ''0'' then ''0'' else takeWhile is_digit s1)"
  define s2 where "s2 = drop (length ip) s1"
  define s3 where "s3 = (if HasPrefix s2 ''.'' then dropWhile is_digit (drop 1 s2) else s2)"
  have ip: "ip \<noteq> []" and r: "length r \<le> length s3"
    using assms unfolding number_prefix_def Let_def s1_def [symmetric]
    by (auto simp: ip_def s2_def s3_def s1_def Let_def split: if_splits option.splits intro!: length_dropWhile_le order_trans [OF length_dropWhile_le])
  have "length s3 \<le> length s2" by (auto simp: s3_def intro!: order_trans [OF length_dropWhile_le])
  moreover have "s1 \<noteq> []" using ip by (auto simp: ip_def HasPrefix_def split: if_splits)
  then have "length s2 < length s1" using ip by (simp add: s2_def)
  moreover have "length s1 \<le> length s" by (simp add: s1_def)
  ultimately show ?thesis using r by simp
qed

lemma parse_shorter:
  "parse_value f s = Some (v, r) \<Longrightarrow> length r < length s"
  "parse_elems f s = Some (xs, r) \<Longrightarrow> length r < length s"
  "parse_members f s = Some (kvs, r) \<Longrightarrow> length r < length s"
proof (induction f s and f s and f s arbitrary: v r and xs r and kvs r rule: parse_value_parse_elems_parse_members.induct)
  case (2 f s)
  obtain c cs where s: "skip_ws s = c # cs" using 2(3) by (cases "skip_ws s") simp_all
  have cs: "length cs < length s" by (rule skip_ws_Cons [OF s])
  have lit: "length (drop k (c # cs)) < length s" if "k > 0" for k using cs that by (cases k) (simp_all add: order_le_less_trans)
  have ws: "length (drop 1 (skip_ws cs)) < length s" using cs skip_ws_length [of cs] by simp
  have num: "number_prefix (c # cs) = Some (l, q) \<Longrightarrow> length q < length s" for l q
    using number_prefix_shorter [of "c # cs" l q] cs by simp
  show ?case
    using 2 s cs lit [of 4] lit [of 5] ws num dec_str_shorter [of cs]
    by (fastforce split: if_splits)
next
  case (4 f s)
  then obtain x q where x: "parse_value f s = Some (x, q)" by (auto split: option.splits)
  with 4 obtain d q' where d: "skip_ws q = d # q'" by (cases "skip_ws q") auto
  have "length q' < length s" using skip_ws_Cons [OF d] 4(1) [OF x] by simp
  with 4 x d show ?case by (fastforce split: if_splits)
next
  case (6 f s)
  obtain q0 s1 where s1: "skip_ws s = q0 # s1" "q0 = quote_char" using 6(3) by (cases "skip_ws s") (auto split: if_splits)
  obtain k s2 where s2: "dec_str s1 = Some (k, s2)" using 6(3) s1 by (cases "dec_str s1") auto
  obtain s3 where s3: "skip_ws s2 = CHR '':'' # s3" using 6(3) s1 s2 by (cases "skip_ws s2") (auto split: if_splits)
  obtain x q where x: "parse_value f s3 = Some (x, q)" using 6(3) s1 s2 s3 by (cases "parse_value f s3") auto
  obtain d q' where d: "skip_ws q = d # q'" using 6(3) s1 s2 s3 x by (cases "skip_ws q") auto
  have "length s3 < length s" using skip_ws_Cons [OF s1(1)] dec_str_shorter [OF s2] skip_ws_Cons [OF s3] by simp
  moreover have "length q < length s3" using 6(1) s1 s2 s3 x by fastforce
  ultimately have "length q' < length s" using skip_ws_Cons [OF d] by simp
  with 6 s1 s2 s3 x d show ?case by (fastforce split: if_splits)
qed simp_all

section \<open>Enough fuel\<close>

text \<open>More fuel than twice the length makes no difference: the parser never stops for want of it.\<close>

lemma parse_fuel_Suc:
  "2 * length s < f \<Longrightarrow> parse_value (Suc f) s = parse_value f s"
  "2 * length s + 1 < f \<Longrightarrow> parse_elems (Suc f) s = parse_elems f s"
  "2 * length s + 1 < f \<Longrightarrow> parse_members (Suc f) s = parse_members f s"
proof (induction f s and f s and f s rule: parse_value_parse_elems_parse_members.induct)
  case (2 f s)
  show ?case
  proof (cases "skip_ws s")
    case (Cons c cs)
    then have "2 * length cs + 1 < f" using skip_ws_Cons [OF Cons] 2(3) by simp
    with 2 Cons have "c = CHR ''['' \<Longrightarrow> \<not> HasPrefix (skip_ws cs) '']'' \<Longrightarrow> parse_elems (Suc f) cs = parse_elems f cs"
      "c = CHR ''{'' \<Longrightarrow> \<not> HasPrefix (skip_ws cs) ''}'' \<Longrightarrow> parse_members (Suc f) cs = parse_members f cs"
      by simp_all
    then show ?thesis unfolding parse_value.simps Cons list.case
      by (auto simp del: parse_elems.simps parse_members.simps)
  qed (simp only: parse_value.simps list.case)
next
  case (4 f s)
  have v: "parse_value (Suc f) s = parse_value f s" using 4(1,3) by simp
  show ?case
  proof (cases "parse_value f s")
    case (Some p)
    obtain x q where p: "p = (x, q)" by (cases p)
    have q: "length q < length s" using parse_shorter(1) [of f s x q] Some p by simp
    show ?thesis
    proof (cases "skip_ws q")
      case (Cons d q')
      then have "2 * length q' + 1 < f" using skip_ws_Cons [OF Cons] q 4(3) by simp
      with 4(2) [OF Some [unfolded p] refl Cons] have "d = CHR '','' \<Longrightarrow> parse_elems (Suc f) q' = parse_elems f q'" by simp
      then show ?thesis unfolding parse_elems.simps v Some p option.case prod.case Cons list.case
        by (auto simp del: parse_elems.simps)
    qed (simp only: parse_elems.simps v Some p option.case prod.case list.case)
  qed (simp only: parse_elems.simps v option.case)
next
  case (6 f s)
  show ?case
  proof (cases "\<exists>s1 k s2 s3. skip_ws s = quote_char # s1 \<and> dec_str s1 = Some (k, s2) \<and> skip_ws s2 = CHR '':'' # s3")
    case True
    then obtain s1 k s2 s3 where s1: "skip_ws s = quote_char # s1" "dec_str s1 = Some (k, s2)" "skip_ws s2 = CHR '':'' # s3" by blast
    have s3: "length s3 < length s" using skip_ws_Cons [OF s1(1)] dec_str_shorter [OF s1(2)] skip_ws_Cons [OF s1(3)] by simp
    have v: "parse_value (Suc f) s3 = parse_value f s3" using 6(1) s1 s3 6(3) by simp
    show ?thesis
    proof (cases "parse_value f s3")
      case (Some p)
      obtain x q where p: "p = (x, q)" by (cases p)
      have q: "length q < length s3" using parse_shorter(1) [of f s3 x q] Some p by simp
      show ?thesis
      proof (cases "skip_ws q")
        case (Cons d q')
        then have "2 * length q' + 1 < f" using skip_ws_Cons [OF Cons] q s3 6(3) by simp
        with 6(2) s1 Some p Cons have "d = CHR '','' \<Longrightarrow> parse_members (Suc f) q' = parse_members f q'" by simp
        then show ?thesis unfolding parse_members.simps s1 option.case prod.case list.case v Some p Cons
          by (auto simp: s1 Cons v [unfolded Some p] Some p simp del: parse_members.simps parse_value.simps)
      qed (simp add: s1 v Some p del: parse_value.simps)
    qed (simp only: parse_members.simps s1 option.case prod.case list.case simp_thms if_False v)
  next
    case False
    have "parse_members (Suc g) s = None" for g
    proof (cases "skip_ws s")
      case Cons1: (Cons q s1)
      show ?thesis
      proof (cases "dec_str s1")
        case (Some p)
        obtain k s2 where p: "p = (k, s2)" by (cases p)
        have "q \<noteq> quote_char \<or> skip_ws s2 \<noteq> CHR '':'' # tl (skip_ws s2)" using False Cons1 Some p by auto
        then show ?thesis unfolding parse_members.simps Cons1 Some p list.case option.case prod.case by (cases "skip_ws s2") auto
      qed (simp add: Cons1)
    qed simp
    then show ?thesis by simp
  qed
qed simp_all

lemma parse_value_fuel: "2 * length s < f \<Longrightarrow> parse_value (f + k) s = parse_value f s"
  by (induction k) (simp_all add: parse_fuel_Suc(1) del: parse_value.simps)

section \<open>Names in lower case\<close>

definition lower_char :: "char \<Rightarrow> bool" where
  "lower_char c \<longleftrightarrow> c = CHR ''_'' \<or> (97 \<le> byte c \<and> byte c \<le> 122)"

lemma fold_lower:
  assumes "lower_char c" and "lower_char d"
  shows "fold_char c = fold_char d \<longleftrightarrow> c = d"
proof -
  define unfold_char where "unfold_char x = (if byte x = 95 then x else char_of (byte x + 32))" for x
  have "unfold_char (fold_char c) = c" if "lower_char c" for c
  proof (cases "c = CHR ''_''")
    case True
    then show ?thesis by (simp add: unfold_char_def fold_char_def)
  next
    case False
    with that have c: "97 \<le> byte c" "byte c \<le> 122" by (simp_all add: lower_char_def)
    then have "byte (fold_char c) = byte c - 32" by (simp add: fold_char_def)
    moreover have "byte c - 32 \<noteq> 95" using c by linarith
    ultimately show ?thesis using c by (simp add: unfold_char_def)
  qed
  from this [OF assms(1)] this [OF assms(2)] show ?thesis by metis
qed

lemma fold_name_lower: "list_all lower_char s \<Longrightarrow> fold_name s = map fold_char s"
  by (induction s rule: fold_name.induct) (auto simp: lower_char_def)

lemma field_vals_lower:
  assumes "list_all lower_char name" and "list_all (\<lambda>(k, v). list_all lower_char k) kvs"
  shows "field_vals name kvs = map snd (filter (\<lambda>(k, v). k = name) kvs)"
proof -
  have "map fold_char k = map fold_char name \<longleftrightarrow> k = name" if "list_all lower_char k" for k
    using that assms(1) by (induction k name rule: list_induct2') (auto simp: fold_lower)
  then have "fold_name k = fold_name name \<longleftrightarrow> k = name" if "(k, v) \<in> set kvs" for k v
    using that assms by (auto simp: fold_name_lower list_all_iff)
  then show ?thesis unfolding field_vals_def by (auto intro!: arg_cong [where f = "map snd"] filter_cong)
qed

end
