(* ===== verification/SupervisorProps.thy ===== *)
theory SupervisorProps
  imports Supervisor JsonFacts
begin

text \<open>
  The properties of the supervisor: what a start does and what a failed one leaves behind, the
  command line a worker gets, what the end of a log decides, and the graceful shutdown.
\<close>

section \<open>Computing with the supervisor\<close>

lemma comp_run [simp]:
  "ret a s = (Inr a, s)" "fail e s = (Inl e, s)" "with_state f s = f s s" "modify g s = (Inr (), g s)"
  by (simp_all add: ret_def fail_def with_state_def modify_def)

lemma bnd_Inr: "m s = (Inr a, s') \<Longrightarrow> bnd m f s = f a s'"
  by (simp add: bnd_def)

lemma bnd_Inl: "m s = (Inl e, s') \<Longrightarrow> bnd m f s = (Inl e, s')"
  by (simp add: bnd_def)

lemma handle_Inr: "m s = (Inr a, s') \<Longrightarrow> handle m h f s = f a s'"
  by (simp add: handle_def)

lemma handle_Inl: "m s = (Inl e, s') \<Longrightarrow> e \<noteq> NilDereference \<Longrightarrow> handle m h f s = h e s'"
  by (simp add: handle_def)

lemma dropped_Inr: "m s = (Inr a, s') \<Longrightarrow> dropped m s = (Inr (), s')"
  by (simp add: dropped_def handle_Inr)

lemma on_store_run: "m (sup_st s) = (r, t) \<Longrightarrow> on_store m s = (map_sum StoreError id r, s\<lparr>sup_st := t\<rparr>)"
  by (simp add: on_store_def)

lemma on_store_not_nil: "on_store m s = (Inl e, s') \<Longrightarrow> e \<noteq> NilDereference"
  by (cases "m (sup_st s)"; cases "fst (m (sup_st s))") (auto simp: on_store_def)

lemma dropped_on_store: "dropped (on_store m) s = (Inr (), s\<lparr>sup_st := snd (m (sup_st s))\<rparr>)"
  by (cases "m (sup_st s)"; cases "fst (m (sup_st s))") (auto simp: on_store_def dropped_def handle_def)

lemma on_docker_run: "sup_docker s \<Longrightarrow> f (engine s) = (r, d) \<Longrightarrow> on_docker f s = (map_sum DockerError id r, s\<lparr>engine := d\<rparr>)"
  by (simp add: on_docker_def)

lemma dropped_on_docker: "sup_docker s \<Longrightarrow> dropped (on_docker f) s = (Inr (), s\<lparr>engine := snd (f (engine s))\<rparr>)"
  by (cases "f (engine s)"; cases "fst (f (engine s))") (auto simp: on_docker_def dropped_def handle_def)

section \<open>Start\<close>

text \<open>The answer of the leader check, and the supervisor after it was asked.\<close>

definition is_leader :: "'d Supervisor \<Rightarrow> bool" where
  "is_leader s = (case leaderCheck s of None \<Rightarrow> True | Some f \<Rightarrow> f (checks s))"

definition asked :: "'d Supervisor \<Rightarrow> 'd Supervisor" where
  "asked s = (case leaderCheck s of None \<Rightarrow> s | Some f \<Rightarrow> s\<lparr>checks := Suc (checks s)\<rparr>)"

lemma check_leader_run: "check_leader s = (Inr (is_leader s), asked s)"
  by (simp add: check_leader_def is_leader_def asked_def bnd_def split: option.splits)

lemma asked_simps [simp]:
  "sup_cfg (asked s) = sup_cfg s" "sup_st (asked s) = sup_st s" "sup_docker (asked s) = sup_docker s"
  "engine (asked s) = engine s" "sup_pid (asked s) = sup_pid s" "sup_controllerID (asked s) = sup_controllerID s"
  "tracked (asked s) = tracked s" "trackers (asked s) = trackers s" "map_order (asked s) = map_order s"
  by (simp_all add: asked_def split: option.splits)

lemma start_opts_frame [simp]: "start_opts (s\<lparr>sup_st := t\<rparr>) i job now = start_opts s i job now"
  "start_opts (asked s) i job now = start_opts s i job now"
  by (simp_all add: start_opts_def)

lemma running_sets_frame [simp]: "running_sets (s\<lparr>sup_st := t\<rparr>) i c = running_sets s i c"
  "running_sets (s\<lparr>engine := d\<rparr>) i c = running_sets s i c" "running_sets (asked s) i c = running_sets s i c"
  by (simp_all add: running_sets_def)

text \<open>
  Where nothing refuses it, \<open>start_prepare\<close> reads the clock once and returns the options.
\<close>

lemma start_prepare_ok:
  assumes "good (sup_st s)" and "is_leader s" and "sup_docker s"
    and "find_job i (tables s) = Some r" and "scanJob r = Inr job"
    and "job_State job \<in> {StatePending, StateInterruptedResumable}"
    and "mkdirAll (hostStateDir (sup_cfg s) i) = None"
  shows "\<exists>t. start_prepare mkdirAll i s =
     (Inr (start_opts s i job (clock (sup_st s) (ticks (sup_st s)))), (asked s)\<lparr>sup_st := t\<rparr>) \<and>
     good t \<and> db t = tables s \<and> clock t = clock (sup_st s)"
proof -
  let ?t = "(sup_st s)\<lparr>calls := Suc (calls (sup_st s))\<rparr>"
  have g: "on_store (GetJob i) (asked s) = (Inr job, (asked s)\<lparr>sup_st := ?t\<rparr>)"
    using GetJob_good [OF assms(1,4,5)] by (simp add: on_store_def)
  let ?t' = "?t\<lparr>ticks := Suc (ticks ?t)\<rparr>"
  have "on_store read_clock ((asked s)\<lparr>sup_st := ?t\<rparr>) = (Inr (clock (sup_st s) (ticks (sup_st s))), (asked s)\<lparr>sup_st := ?t'\<rparr>)"
    by (simp add: on_store_def read_clock_def)
  then show ?thesis
    using assms(1,2,3,6,7) g
    by (intro exI [of _ ?t']) (auto simp: start_prepare_def bnd_def check_leader_run)
qed

text \<open>
  C6: a start that nothing refuses launches the worker: the engine is asked to run exactly the
  container of \<open>start_opts\<close>, the job becomes \<open>running\<close> with the container, this controller's PID
  (and its cluster identity in HA mode) and the state file recorded, no other job changes, and
  the job is tracked by a new tracker of that container.
\<close>

theorem Start_launches:
  assumes "good (sup_st s)" and "is_leader s" and "sup_docker s"
    and "find_job i (tables s) = Some r" and "scanJob r = Inr job"
    and "job_State job \<in> {StatePending, StateInterruptedResumable}"
    and "mkdirAll (hostStateDir (sup_cfg s) i) = None"
    and "docker_Run cli (start_opts s i job (clock (sup_st s) (ticks (sup_st s)))) (engine s) = (Inr cid, d)"
  shows "\<exists>s' r'. Start cli mkdirAll i s = (Inr (), s') \<and> engine s' = d \<and> good (sup_st s') \<and>
     find_job i (tables s') = Some r' \<and> r' ''state'' = Text StateRunning \<and> r' ''container_id'' = Text cid \<and>
     r' ''controller_pid'' = Integer (sup_pid s) \<and> r' ''state_volume_path'' = Text (hostStateFile (sup_cfg s) i) \<and>
     r' ''assigned_controller_id'' =
       (if sup_controllerID s \<noteq> '''' then Text (sup_controllerID s) else r ''assigned_controller_id'') \<and>
     (\<forall>j. j = i \<or> find_job j (tables s') = find_job j (tables s)) \<and>
     map_of (tracked s') i = Some (length (trackers s)) \<and>
     trackers s' = trackers s @ [\<lparr>tr_jobID = i, tr_containerID = cid, tr_phase = Attaching\<rparr>]"
proof -
  let ?o = "start_opts s i job (clock (sup_st s) (ticks (sup_st s)))"
  obtain t where p: "start_prepare mkdirAll i s = (Inr ?o, (asked s)\<lparr>sup_st := t\<rparr>)" and t: "good t" "db t = tables s"
    using start_prepare_ok [where mkdirAll = mkdirAll, OF assms(1-6)] assms(7) by blast
  let ?s = "(asked s)\<lparr>sup_st := t, engine := d\<rparr>"
  have run: "on_docker (docker_Run cli ?o) ((asked s)\<lparr>sup_st := t\<rparr>) = (Inr cid, ?s)"
    using assms(3,8) by (simp add: on_docker_def)
  have cur: "state_of (db t) i = Some (job_State job)" using state_of_scanned [OF assms(4,5)] t(2) by simp
  have "IsValidTransition (job_State job) StateRunning"
    using assms(6) by (auto simp: IsValidTransition_def validTransitions_def state_defs)
  from t(1) plain_running_sets cur this obtain t' q
    where tr: "Transition i StateRunning [assigns (running_sets s i cid)] t = (Inr (), t')" "good t'"
      "find_job i (db t) = Some q"
      "find_job i (db t') = Some (\<lambda>c. if c = ''state'' then Text StateRunning
         else if stamp_column StateRunning = Some c then Integer (UnixNano (clock t (ticks t)))
         else case map_of (rev (running_sets s i cid)) c of Some v \<Rightarrow> v | None \<Rightarrow> q c)"
      "state_of (db t') i = Some StateRunning" "\<forall>j. j = i \<or> find_job j (db t') = find_job j (db t)"
    by (rule Transition_goodE)
  have q: "q = r" using tr(3) assms(4) t(2) by simp
  have "on_store (Transition i StateRunning [assigns (running_sets s i cid)]) ?s = (Inr (), ?s\<lparr>sup_st := t'\<rparr>)"
    using tr(1) by (simp add: on_store_def)
  then have "Start cli mkdirAll i s = track i cid (?s\<lparr>sup_st := t'\<rparr>)"
    unfolding Start_def by (simp add: bnd_def p run start_commit_def handle_def)
  then show ?thesis using tr(2,4,6) t(2)
    by (simp add: track_def q running_sets_def stamp_column_def)
qed

text \<open>
  An engine to evaluate on: it records the commands it is given, every container it runs is
  called \<open>c1\<close>, and the outcome of an inspection is given.
\<close>

definition demo_cli :: "string \<Rightarrow> string list list cli" where
  "demo_cli inspected args d =
     (Inr (if hd args = ''run'' then ''c1'' else if hd args = ''inspect'' then inspected else ''''), d @ [args])"

definition demo_sup :: "string list list Supervisor" where
  "demo_sup = sup_New (Load (\<lambda>f u s. f * u div s) Map.empty) demo_created True [] 42 (\<lambda>ks. ks)"

lemma demo_sup_simps [simp]:
  "sup_st demo_sup = demo_created" "is_leader demo_sup" "sup_docker demo_sup" "tracked demo_sup = []"
  "trackers demo_sup = []" "engine demo_sup = []" "sup_pid demo_sup = 42" "sup_controllerID demo_sup = ''''"
  by (simp_all add: demo_sup_def sup_New_def is_leader_def)

lemma demo_created_good: "good demo_created"
  by (simp add: good_def demo_created_facts)

lemma demo_created_job:
  "scanJob (new_row (demo_job ''a'') (initial_state (demo_job ''a'')) 1000) = Inr (created_job (demo_job ''a'') 1000)"
  by (rule scanJob_new_row) (auto simp: demo_job_def intro!: utf8_ok_ascii)

lemma demo_run: "docker_Run (demo_cli x) opts d = (Inr ''c1'', d @ [run_args opts])"
proof -
  have "TrimSpace ''c1'' = ''c1''" by code_simp
  then show ?thesis by (simp add: docker_Run_def demo_cli_def run_args_def)
qed

theorem Start_launches_witness:
  "\<exists>s' r'. Start (demo_cli '''') (\<lambda>_. None) ''a'' demo_sup = (Inr (), s') \<and> length (engine s') = 1 \<and>
     find_job ''a'' (tables s') = Some r' \<and> r' ''state'' = Text StateRunning \<and> r' ''container_id'' = Text ''c1'' \<and>
     r' ''controller_pid'' = Integer 42 \<and> map_of (tracked s') ''a'' = Some 0"
proof -
  have "job_State (created_job (demo_job ''a'') 1000) = StatePending"
    by (simp add: created_job_def demo_job_def initial_state_def)
  with Start_launches [where s = demo_sup and i = "''a''" and cli = "demo_cli ''''" and mkdirAll = "\<lambda>_. None" and cid = "''c1''"]
    demo_created_good demo_created_row demo_created_job
  show ?thesis by (fastforce simp: demo_run)
qed

text \<open>What can have happened to the engine when a start returned an error.\<close>

definition engine_undone :: "'d cli \<Rightarrow> 'd \<Rightarrow> 'd \<Rightarrow> bool" where
  "engine_undone cli d d' \<longleftrightarrow>
     d' = d \<or> (\<exists>opts e. docker_Run cli opts d = (Inl e, d')) \<or>
     (\<exists>opts cid d1. docker_Run cli opts d = (Inr cid, d1) \<and> d' = snd (docker_Remove cli cid d1))"

lemma start_prepare_frame:
  assumes "start_prepare mkdirAll i s = (r, s')"
  shows "tables s' = tables s \<and> engine s' = engine s \<and> tracked s' = tracked s \<and> trackers s' = trackers s \<and>
     sup_docker s' = sup_docker s \<and> r \<noteq> Inl NilDereference \<and> (r = Inr opts \<longrightarrow> sup_docker s)"
proof -
  have g: "db (snd (GetJob i t)) = db t" for t by (simp add: GetJob_db split: option.splits)
  obtain x t where x: "GetJob i (sup_st (asked s)) = (x, t)" by fastforce
  with g [of "sup_st s"] have "db t = tables s" by simp
  with assms x show ?thesis
    by (cases x) (auto simp: start_prepare_def bnd_def check_leader_run on_store_def read_clock_def split: if_splits option.splits)
qed

lemma Start_undone:
  assumes "Start cli mkdirAll i s = (Inl e, s')"
  shows "tables s' = tables s \<and> tracked s' = tracked s \<and> trackers s' = trackers s \<and> engine_undone cli (engine s) (engine s')"
proof -
  obtain x s1 where p: "start_prepare mkdirAll i s = (x, s1)" by fastforce
  note f = start_prepare_frame [OF p]
  show ?thesis
  proof (cases x)
    case (Inl e1)
    with assms p have "s' = s1" by (simp add: Start_def bnd_def)
    with f show ?thesis by (simp add: engine_undone_def)
  next
    case (Inr opts)
    with f have dk: "sup_docker s1" by simp
    obtain y d1 where run: "docker_Run cli opts (engine s1) = (y, d1)" by fastforce
    show ?thesis
    proof (cases y)
      case (Inl e1)
      with assms p Inr run dk have "s' = s1\<lparr>engine := d1\<rparr>" by (simp add: Start_def bnd_def on_docker_def)
      with f run Inl show ?thesis by (auto simp: engine_undone_def)
    next
      case (Inr cid)
      let ?s = "s1\<lparr>engine := d1\<rparr>"
      obtain z t where tr: "Transition i StateRunning [assigns (running_sets ?s i cid)] (sup_st ?s) = (z, t)" by fastforce
      have c: "start_commit cli i cid ?s = (Inl e, s')"
        using assms p \<open>x = Inr opts\<close> run Inr dk by (simp add: Start_def bnd_def on_docker_def)
      with tr obtain e1 where z: "z = Inl e1"
        by (cases z) (auto simp: start_commit_def handle_def on_store_def track_def)
      with c tr dk have "s' = ?s\<lparr>sup_st := t, engine := snd (docker_Remove cli cid d1)\<rparr>"
        by (simp add: start_commit_def handle_def on_store_def bnd_def dropped_on_docker)
      moreover have "db t = tables s1" using Transition_Inl_db [OF tr [unfolded z]] by simp
      moreover have "docker_Run cli opts (engine s) = (Inr cid, d1)" using f run Inr by simp
      then have "engine_undone cli (engine s) (snd (docker_Remove cli cid d1))" unfolding engine_undone_def by blast
      ultimately show ?thesis using f by simp
    qed
  qed
qed

text \<open>
  C7: a start that fails leaves nothing behind, whichever check, driver call or Docker command
  failed: the tables and the trackers are as before, and where a container had been launched
  its removal was requested.
\<close>

theorem Start_failure_is_undone:
  assumes "Start cli mkdirAll i s = (Inl e, s')"
  shows "tables s' = tables s \<and> tracked s' = tracked s \<and> trackers s' = trackers s \<and> engine_undone cli (engine s) (engine s')"
  using assms by (rule Start_undone)

text \<open>The commit of the transition fails after the container was launched.\<close>

theorem Start_failure_is_undone_witness:
  "let s = demo_sup\<lparr>sup_st := demo_created\<lparr>faults := (\<lambda>n. if n = calls demo_created + 5 then Some ''disk full'' else None)\<rparr>\<rparr>
   in fst (Start (demo_cli '''') (\<lambda>_. None) ''a'' s) = Inl (StoreError (DbError ''disk full'')) \<and>
      tables (snd (Start (demo_cli '''') (\<lambda>_. None) ''a'' s)) = db demo_created \<and>
      last (engine (snd (Start (demo_cli '''') (\<lambda>_. None) ''a'' s))) = [''rm'', ''-f'', ''c1''] \<and>
      trackers (snd (Start (demo_cli '''') (\<lambda>_. None) ''a'' s)) = []"
proof -
  let ?t = "demo_created\<lparr>faults := (\<lambda>n. if n = calls demo_created + 5 then Some ''disk full'' else None)\<rparr>"
  let ?s = "demo_sup\<lparr>sup_st := ?t\<rparr>"
  let ?u = "?t\<lparr>calls := Suc (calls ?t), ticks := Suc (ticks ?t)\<rparr>"
  let ?j = "created_job (demo_job ''a'') 1000"
  have "job_State ?j = StatePending" by (simp add: created_job_def demo_job_def initial_state_def)
  moreover have "GetJob ''a'' ?t = (Inr ?j, ?t\<lparr>calls := Suc (calls ?t)\<rparr>)"
    using demo_created_row demo_created_job by (simp add: GetJob_db)
  ultimately have p: "start_prepare (\<lambda>_. None) ''a'' ?s =
     (Inr (start_opts ?s ''a'' ?j (clock ?t (ticks ?t))), ?s\<lparr>sup_st := ?u\<rparr>)"
    by (simp add: start_prepare_def bnd_def check_leader_def demo_sup_def sup_New_def on_store_def read_clock_def)
  obtain t' where tr: "Transition ''a'' StateRunning [assigns (running_sets ?s ''a'' ''c1'')] ?u = (Inl (DbError ''disk full''), t')"
    by (simp add: demo_created_def demo_eval Let_def running_sets_def)
  have "Start (demo_cli '''') (\<lambda>_. None) ''a'' ?s = (Inl (StoreError (DbError ''disk full'')),
     ?s\<lparr>sup_st := t', engine := [run_args (start_opts ?s ''a'' ?j (clock ?t (ticks ?t))), [''rm'', ''-f'', ''c1'']]\<rparr>)"
    using tr p by (simp add: Start_def bnd_def on_docker_def demo_run start_commit_def handle_def on_store_def
        dropped_on_docker docker_Remove_def simple_cmd_def demo_cli_def)
  with Start_failure_is_undone [of "demo_cli ''''" "\<lambda>_. None" "''a''" ?s]
  show ?thesis by (simp add: Let_def)
qed

section \<open>The worker's command line\<close>

text \<open>
  C38: \<open>argOr\<close> is a look-up in the list of neighbouring tokens: the value after the first
  occurrence of the key that has a token after it, or the default.
\<close>

theorem argOr_is_lookup:
  "argOr args key def = (case map_of (zip args (tl args)) key of None \<Rightarrow> def | Some v \<Rightarrow> v)"
  by (induction args key def rule: argOr.induct) auto

text \<open>The flags of a command line with their values, as the worker's own parser pairs them.\<close>

fun flag_pairs :: "string list \<Rightarrow> (string \<times> string) list" where
  "flag_pairs (k # v # rest) = (k, v) # flag_pairs rest"
| "flag_pairs _ = []"

text \<open>
  C37: the command line of a worker. It is a list of flags each with one value and none twice;
  the job id and the state path are the job's, the numbers are those of the job's arguments or
  the defaults, and \<open>--resume-from\<close> is there exactly when the job is resumed and has a
  checkpoint.
\<close>

theorem worker_command_line:
  "let ps = flag_pairs (start_cmd c i job); a = (\<lambda>k v. argOr (job_Args job) k v)
   in length (start_cmd c i job) = 2 * length ps \<and> distinct (map fst ps) \<and>
      map_of ps ''--job-id'' = Some i \<and> map_of ps ''--output-state'' = Some (cc_WorkerStatePath c) \<and>
      map_of ps ''--worker'' = Some (a ''--worker'' ''primes'') \<and>
      map_of ps ''--limit'' = Some (a ''--limit'' ''100000'') \<and>
      map_of ps ''--checkpoint-every'' = Some (a ''--checkpoint-every'' ''5000'') \<and>
      map_of ps ''--seed'' = (if a ''--seed'' '''' = '''' then None else Some (a ''--seed'' '''')) \<and>
      map_of ps ''--resume-from'' =
        (if job_State job = StateInterruptedResumable \<and> job_LastCheckpointPath job \<noteq> None
         then Some (cc_WorkerStatePath c) else None)"
  by (simp add: start_cmd_def Let_def)

section \<open>Following a log\<close>

lemma RecordCheckpoint_goodE:
  assumes "good s" and "find_job i (db s) = Some r"
  obtains s' where "RecordCheckpoint i e f p s = (Inr (), s')" and "good s'"
    and "find_job i (db s') = Some (update_row (checkpoint_updates (clock s (ticks s)) e f p) r)"
    and "\<forall>j. j = i \<or> find_job j (db s') = find_job j (db s)"
proof -
  let ?now = "clock s (ticks s)"
  let ?s = "s\<lparr>ticks := Suc (ticks s), calls := Suc (calls s)\<rparr>"
  have q: "quiet ?s" "set job_columns \<subseteq> set (job_cols (db ?s))" using assms(1) by (simp_all add: good_def quiet_def)
  have "\<forall>(c, v) \<in> set (checkpoint_updates ?now e f p). c \<in> set job_columns \<and> c \<noteq> ''id'' \<and> v \<noteq> Null"
    by (simp add: checkpoint_updates_def job_columns_def)
  from update_job_quiet [OF q this, of i] obtain n s1
    where up: "update_job i (checkpoint_updates ?now e f p) ?s = (Inr n, s1)" "quiet s1" by blast
  have "n \<noteq> 0"
    using up(1) find_job_has_id [OF assms(2)]
    by (auto simp: update_job_def bnd_def driver_call_def get_db_def put_db_def fail_def ret_def filter_empty_conv
        split: option.splits if_splits)
  then have "fst (RecordCheckpoint i e f p s) = Inr ()"
    using up q(1)
    by (simp add: RecordCheckpoint_def with_tx_def bnd_def read_clock_def driver_call_def quiet_def insertEvent_def
        get_db_def put_db_def ret_def)
  then obtain s' where rc: "RecordCheckpoint i e f p s = (Inr (), s')" by (metis prod.collapse)
  from rc show thesis
  proof (rule RecordCheckpoint_Inr)
    fix now ts r'
    assume "find_job i (db s) = Some r'" and "now = ?now"
      and d: "db s' = add_event i ''checkpoint'' (checkpoint_payload e f p) ts (set_job i (checkpoint_updates now e f p) (db s))"
    with assms(2) have "find_job i (db s') = Some (update_row (checkpoint_updates ?now e f p) r)"
      by (simp add: find_job_set_job)
    moreover have "\<forall>j. j = i \<or> find_job j (db s') = find_job j (db s)"
      by (simp add: d find_job_set_job option.map_id)
    moreover have "good s'" using good_RecordCheckpoint [OF assms(1), of i e f p] rc by simp
    ultimately show thesis using that rc by blast
  qed
qed

text \<open>The store after the checkpoints of some log lines were recorded.\<close>

definition record_line :: "string \<Rightarrow> string \<Rightarrow> Store \<Rightarrow> Store" where
  "record_line i raw st =
     (case line_event raw of LineCheckpoint e f p \<Rightarrow> snd (RecordCheckpoint i e f p st) | _ \<Rightarrow> st)"

definition record_lines :: "string \<Rightarrow> string list \<Rightarrow> Store \<Rightarrow> Store" where
  "record_lines i ls = fold (record_line i) ls"

lemma set_phase_same:
  "k < length (trackers s) \<Longrightarrow> tr_phase (trackers s ! k) = ph \<Longrightarrow> set_phase k ph s = s"
  by (auto simp: set_phase_def)

lemma set_phase_twice [simp]: "set_phase k ph (set_phase k ph' s) = set_phase k ph s"
  by (cases "k < length (trackers s)") (simp_all add: set_phase_def list_update_beyond)

lemma set_phase_simps [simp]:
  "length (trackers (set_phase k ph s)) = length (trackers s)"
  "sup_docker (set_phase k ph s) = sup_docker s" "engine (set_phase k ph s) = engine s"
  "tracked (set_phase k ph s) = tracked s" "sup_cfg (set_phase k ph s) = sup_cfg s"
  "set_phase k ph (s\<lparr>sup_st := t\<rparr>) = (set_phase k ph s)\<lparr>sup_st := t\<rparr>"
  "set_phase k ph (s\<lparr>engine := d\<rparr>) = (set_phase k ph s)\<lparr>engine := d\<rparr>"
  by (simp_all add: set_phase_def)

lemma trackers_set_phase:
  "k < length (trackers s) \<Longrightarrow> trackers (set_phase k ph s) ! k = (trackers s ! k)\<lparr>tr_phase := ph\<rparr>"
  by (simp add: set_phase_def)

text \<open>Reading lines records their checkpoints and remembers whether one said \<open>completed\<close>.\<close>

lemma stream_lines_run:
  assumes "k < length (trackers s)" and "tr_phase (trackers s ! k) = Scanning saw" and "tr_jobID (trackers s ! k) = i"
  shows "stream_steps cli (map (\<lambda>l. (k, LogLine l)) ls @ rest) s =
     stream_steps cli rest ((set_phase k (Scanning (saw \<or> LineCompleted \<in> line_event ` set ls)) s)
       \<lparr>sup_st := record_lines i ls (sup_st s)\<rparr>)"
  using assms
proof (induction ls arbitrary: s saw)
  case Nil
  then show ?case by (simp add: record_lines_def set_phase_same)
next
  case (Cons l ls)
  let ?s = "(set_phase k (Scanning (saw \<or> line_event l = LineCompleted)) s)\<lparr>sup_st := record_line i l (sup_st s)\<rparr>"
  have "stream_step cli k (LogLine l) s = (Inr (), ?s)"
    using Cons.prems
    by (cases "line_event l")
      (simp_all add: stream_step_def stream_line_def dropped_on_store record_line_def set_phase_same)
  then have "stream_steps cli (map (\<lambda>l. (k, LogLine l)) (l # ls) @ rest) s =
      stream_steps cli (map (\<lambda>l. (k, LogLine l)) ls @ rest) ?s" by (simp add: bnd_def)
  also have "\<dots> = stream_steps cli rest
      ((set_phase k (Scanning ((saw \<or> line_event l = LineCompleted) \<or> LineCompleted \<in> line_event ` set ls)) ?s)
       \<lparr>sup_st := record_lines i ls (sup_st ?s)\<rparr>)"
    using Cons.prems by (intro Cons.IH) (simp_all add: trackers_set_phase)
  finally show ?case by (simp add: record_lines_def insert_commute disj_assoc eq_commute [of LineCompleted])
qed

text \<open>The columns of a row after the lines: those of the last checkpoint line, if there is one.\<close>

definition is_checkpoint :: "line_event \<Rightarrow> bool" where
  "is_checkpoint ev = (case ev of LineCheckpoint _ _ _ \<Rightarrow> True | _ \<Rightarrow> False)"

definition last_checkpoint :: "string list \<Rightarrow> line_event option" where
  "last_checkpoint ls = find is_checkpoint (rev (map line_event ls))"

definition checkpointed :: "line_event option \<Rightarrow> row \<Rightarrow> row \<Rightarrow> bool" where
  "checkpointed ck r r' \<longleftrightarrow>
     (\<forall>c \<in> {''last_checkpoint_path'', ''last_checkpoint_epoch'', ''last_checkpoint_found''}. r' c =
        (case ck of
           Some (LineCheckpoint e f p) \<Rightarrow>
             (if c = ''last_checkpoint_path'' then Text p
              else if c = ''last_checkpoint_epoch'' then Integer e else Integer f)
         | _ \<Rightarrow> r c)) \<and>
     (\<forall>c. c \<notin> {''last_checkpoint_at'', ''last_checkpoint_path'', ''last_checkpoint_epoch'', ''last_checkpoint_found''}
        \<longrightarrow> r' c = r c)"

lemma record_lines_good:
  assumes "good st" and "find_job i (db st) = Some r"
  shows "good (record_lines i ls st) \<and> state_of (db (record_lines i ls st)) i = state_of (db st) i \<and>
     (\<exists>r'. find_job i (db (record_lines i ls st)) = Some r' \<and> checkpointed (last_checkpoint ls) r r') \<and>
     (\<forall>j. j = i \<or> find_job j (db (record_lines i ls st)) = find_job j (db st))"
proof (induction ls rule: rev_induct)
  case Nil
  with assms show ?case by (simp add: record_lines_def last_checkpoint_def checkpointed_def)
next
  case (snoc l ls)
  then obtain r' where g: "good (record_lines i ls st)" "state_of (db (record_lines i ls st)) i = state_of (db st) i"
    and r': "find_job i (db (record_lines i ls st)) = Some r'" "checkpointed (last_checkpoint ls) r r'"
    and o: "\<forall>j. j = i \<or> find_job j (db (record_lines i ls st)) = find_job j (db st)" by blast
  have step: "record_lines i (ls @ [l]) st = record_line i l (record_lines i ls st)" by (simp add: record_lines_def)
  show ?case
  proof (cases "line_event l")
    case (LineCheckpoint e f p)
    from g(1) r'(1) obtain s' where rc: "RecordCheckpoint i e f p (record_lines i ls st) = (Inr (), s')" "good s'"
      "find_job i (db s') = Some (update_row (checkpoint_updates
         (clock (record_lines i ls st) (ticks (record_lines i ls st))) e f p) r')"
      "\<forall>j. j = i \<or> find_job j (db s') = find_job j (db (record_lines i ls st))" by (rule RecordCheckpoint_goodE)
    have "record_lines i (ls @ [l]) st = s'" using rc(1) LineCheckpoint by (simp add: step record_line_def)
    moreover have "state_of (db s') i = state_of (db st) i"
      using RecordCheckpoint_state_of [of i e f p "record_lines i ls st" i] rc(1) g(2) by simp
    moreover have "last_checkpoint (ls @ [l]) = Some (LineCheckpoint e f p)"
      using LineCheckpoint by (simp add: last_checkpoint_def is_checkpoint_def)
    moreover have "\<forall>j. j = i \<or> find_job j (db s') = find_job j (db st)" using rc(4) o by metis
    ultimately show ?thesis
      using rc(2,3) r'(2) by (simp add: checkpointed_def update_row_def checkpoint_updates_def)
  qed (use step g r' o in \<open>simp_all add: record_line_def last_checkpoint_def is_checkpoint_def\<close>)
qed

text \<open>The end of the log, on a store that works: what \<open>after_exit\<close> does to an active job.\<close>

definition active_state :: "State \<Rightarrow> bool" where
  "active_state st \<longleftrightarrow> st \<in> {StateRunning, StateCheckpointing}"

definition exit_state :: "Inspect \<Rightarrow> bool \<Rightarrow> State" where
  "exit_state insp saw = (if insp_ExitCode insp = 0 \<or> saw then StateCompleted else StateFailed)"

lemma active_to_exit: "active_state st \<Longrightarrow> IsValidTransition st (exit_state insp saw)"
  by (auto simp: active_state_def exit_state_def IsValidTransition_def validTransitions_def state_defs)

lemma after_exit_run:
  assumes "good (sup_st s)" and "sup_docker s" and "find_job i (tables s) = Some r"
    and "state_of (tables s) i = Some st" and "active_state st" and "\<not> insp_Running insp"
  shows "\<exists>t r'. after_exit cli i c saw insp s = (Inr (), s\<lparr>sup_st := t, engine := snd (docker_Remove cli c (engine s))\<rparr>) \<and>
     good t \<and> find_job i (db t) = Some r' \<and> r' ''state'' = Text (exit_state insp saw) \<and>
     r' ''exit_code'' = Integer (insp_ExitCode insp) \<and>
     (\<forall>x. x \<notin> {''state'', ''finished_at'', ''exit_code''} \<longrightarrow> r' x = r x) \<and>
     state_of (db t) i = Some (exit_state insp saw) \<and> (\<forall>j. j = i \<or> find_job j (db t) = find_job j (tables s))"
proof -
  let ?kvs = "[(''exit_code'', Integer (insp_ExitCode insp))]" and ?n = "exit_state insp saw"
  have pl: "plain_sets ?kvs" by (simp add: setter_columns_def)
  from assms(1) pl assms(4) active_to_exit [OF assms(5)] obtain t q
    where t: "Transition i ?n [assigns ?kvs] (sup_st s) = (Inr (), t)" "good t" "find_job i (tables s) = Some q"
      "find_job i (db t) = Some (\<lambda>c. if c = ''state'' then Text ?n
         else if stamp_column ?n = Some c then Integer (UnixNano (clock (sup_st s) (ticks (sup_st s))))
         else case map_of (rev ?kvs) c of Some v \<Rightarrow> v | None \<Rightarrow> q c)"
      "state_of (db t) i = Some ?n" "\<forall>j. j = i \<or> find_job j (db t) = find_job j (tables s)"
    by (rule Transition_goodE)
  have "q = r" using t(3) assms(3) by simp
  moreover have "stamp_column ?n = Some ''finished_at''"
    by (simp add: stamp_column_def exit_state_def IsTerminal_def state_defs)
  moreover have "after_exit cli i c saw insp s = (Inr (), s\<lparr>sup_st := t, engine := snd (docker_Remove cli c (engine s))\<rparr>)"
    using assms(2,6) t(1) by (simp add: after_exit_def bnd_def dropped_on_store dropped_on_docker exit_state_def)
  ultimately show ?thesis using t(2,4,5,6) by auto
qed

text \<open>
  C8: the log and the exit code decide the job. Following the log of a job's container from the
  start, undisturbed, the last checkpoint line becomes the job's checkpoint; when the log ends
  with the container exited, the job is \<open>completed\<close> where the exit code is 0 or a \<open>completed\<close>
  line was seen and \<open>failed\<close> otherwise, with the exit code recorded, the container removed and
  the job no longer tracked; when the container is still running the job keeps its state.
  No other job is touched.
\<close>

theorem log_decides_the_job:
  assumes "good (sup_st s)" and "sup_docker s" and "k < length (trackers s)"
    and "trackers s ! k = \<lparr>tr_jobID = i, tr_containerID = c, tr_phase = Attaching\<rparr>"
    and "find_job i (tables s) = Some r" and "state_of (tables s) i = Some st" and "active_state st"
    and "FollowLogs cli c (engine s) = (Inr (), d1)" and "docker_Inspect cli c d1 = (Inr insp, d2)"
  shows "\<exists>s' r' q. runStream cli k log s = (Inr (), s') \<and> find_job i (tables s') = Some r' \<and>
     checkpointed (last_checkpoint (scan_lines log)) r q \<and>
     (if insp_Running insp then r' = q \<and> engine s' = d2
      else r' ''state'' = Text (exit_state insp (LineCompleted \<in> line_event ` set (scan_lines log))) \<and>
        r' ''exit_code'' = Integer (insp_ExitCode insp) \<and> engine s' = snd (docker_Remove cli c d2) \<and>
        (\<forall>x. x \<notin> {''state'', ''finished_at'', ''exit_code''} \<longrightarrow> r' x = q x)) \<and>
     map_of (tracked s') i = None \<and> tr_phase (trackers s' ! k) = Finished \<and>
     (\<forall>j. j = i \<or> find_job j (tables s') = find_job j (tables s))"
proof -
  let ?ls = "scan_lines log"
  let ?saw = "LineCompleted \<in> line_event ` set ?ls"
  let ?t = "record_lines i ?ls (sup_st s)"
  let ?s1 = "(set_phase k (Scanning False) s)\<lparr>engine := d1\<rparr>"
  let ?s2 = "(set_phase k (Scanning ?saw) s)\<lparr>engine := d1, sup_st := ?t\<rparr>"
  have att: "stream_step cli k (LogLine '''') s = (Inr (), ?s1)"
    using assms(2-4,8) by (simp add: stream_step_def stream_attach_def Let_def handle_def on_docker_def)
  have ph: "tr_phase (trackers ?s1 ! k) = Scanning False" "tr_jobID (trackers ?s1 ! k) = i" "k < length (trackers ?s1)"
    using assms(3,4) by (simp_all add: trackers_set_phase)
  have "runStream cli k log s = stream_steps cli (map (\<lambda>l. (k, LogLine l)) ?ls @ [(k, LogEnd)]) ?s1"
    by (simp add: runStream_def bnd_def att)
  also have "\<dots> = stream_steps cli [(k, LogEnd)] ?s2"
    using stream_lines_run [OF ph(3,1,2), of cli ?ls "[(k, LogEnd)]"] by simp
  also have "\<dots> = stream_close cli k ?saw ?s2"
    using assms(3,4) by (simp add: stream_step_def bnd_def trackers_set_phase split: prod.splits sum.splits)
  finally have run: "runStream cli k log s = stream_close cli k ?saw ?s2" .
  let ?s3 = "?s2\<lparr>engine := d2\<rparr>"
  have close: "stream_close cli k ?saw ?s2 = bnd (after_exit cli i c ?saw insp) (\<lambda>_. stream_done k) ?s3"
    using assms(2-4,9) by (simp add: stream_close_def Let_def handle_def on_docker_def trackers_set_phase)
  from record_lines_good [OF assms(1,5), of ?ls] assms(6) obtain q where q: "good ?t" "state_of (db ?t) i = Some st"
    "find_job i (db ?t) = Some q" "checkpointed (last_checkpoint ?ls) r q"
    "\<forall>j. j = i \<or> find_job j (db ?t) = find_job j (tables s)" by auto
  have done_run: "stream_done k x = (Inr (), (set_phase k Finished x)\<lparr>tracked := AList.delete i (tracked x)\<rparr>)"
    if "trackers x = trackers ?s2" for x :: "'a Supervisor"
    using that assms(3,4) by (simp add: stream_done_def trackers_set_phase)
  note fin = trackers_set_phase [OF assms(3)] delete_conv'
  show ?thesis
  proof (cases "insp_Running insp")
    case True
    then have "runStream cli k log s = stream_done k ?s3" by (simp add: run close after_exit_def bnd_def)
    with done_run [of ?s3] True q show ?thesis by (simp add: fin)
  next
    case False
    have "good (sup_st ?s3)" "sup_docker ?s3" "find_job i (tables ?s3) = Some q" "state_of (tables ?s3) i = Some st"
      using q assms(2) by simp_all
    from after_exit_run [OF this assms(7) False, of cli c ?saw] obtain t r' where ex:
      "after_exit cli i c ?saw insp ?s3 = (Inr (), ?s3\<lparr>sup_st := t, engine := snd (docker_Remove cli c d2)\<rparr>)"
      "find_job i (db t) = Some r'" "r' ''state'' = Text (exit_state insp ?saw)" "r' ''exit_code'' = Integer (insp_ExitCode insp)"
      "\<forall>x. x \<notin> {''state'', ''finished_at'', ''exit_code''} \<longrightarrow> r' x = q x"
      "\<forall>j. j = i \<or> find_job j (db t) = find_job j (tables ?s3)" by auto
    let ?s4 = "?s3\<lparr>sup_st := t, engine := snd (docker_Remove cli c d2)\<rparr>"
    have "runStream cli k log s = stream_done k ?s4" using ex(1) by (simp add: run close bnd_def)
    moreover have "\<forall>j. j = i \<or> find_job j (db t) = find_job j (tables s)"
      using ex(6) q(5) by simp metis
    ultimately show ?thesis using done_run [of ?s4] False q(4) ex(2-5) by (simp add: fin) blast
  qed
qed

text \<open>A job that runs in the container \<open>c1\<close>, tracked.\<close>

definition demo_running :: "string list list Supervisor" where
  "demo_running = snd (Start (demo_cli '''') (\<lambda>_. None) ''a'' demo_sup)"

lemma demo_running_facts:
  "good (sup_st demo_running)" "sup_docker demo_running" "tracked demo_running = [(''a'', 0)]"
  "trackers demo_running = [\<lparr>tr_jobID = ''a'', tr_containerID = ''c1'', tr_phase = Attaching\<rparr>]"
  "state_of (tables demo_running) ''a'' = Some StateRunning"
  "map_order demo_running = (\<lambda>ks. ks)" "cc_GracePeriod (sup_cfg demo_running) = 30 * 1000000000"
  "\<exists>r job. find_job ''a'' (tables demo_running) = Some r \<and> scanJob r = Inr job \<and> job_State job = StateRunning"
  "length (jobs (tables demo_running)) = 1" "scan (sup_st demo_running) = (\<lambda>rs. rs)" "sup_pid demo_running = 42"
  "\<exists>r job. find_job ''a'' (tables demo_running) = Some r \<and> scanJob r = Inr job \<and> job_State job = StateRunning \<and>
     job_ContainerID job = Some ''c1''"
proof -
  let ?u = "demo_created\<lparr>calls := Suc (calls demo_created), ticks := Suc (ticks demo_created)\<rparr>"
  let ?j = "created_job (demo_job ''a'') 1000"
  have "job_State ?j = StatePending" by (simp add: created_job_def demo_job_def initial_state_def)
  moreover have "GetJob ''a'' demo_created = (Inr ?j, demo_created\<lparr>calls := Suc (calls demo_created)\<rparr>)"
    by (rule GetJob_good [OF demo_created_good demo_created_row demo_created_job])
  ultimately have p: "start_prepare (\<lambda>_. None) ''a'' demo_sup =
     (Inr (start_opts demo_sup ''a'' ?j (clock demo_created (ticks demo_created))), demo_sup\<lparr>sup_st := ?u\<rparr>)"
    by (simp add: start_prepare_def bnd_def check_leader_def demo_sup_def sup_New_def on_store_def read_clock_def)
  have "good ?u" "state_of (db ?u) ''a'' = Some StatePending" using demo_created_good demo_created_facts by simp_all
  moreover have "IsValidTransition StatePending StateRunning" by (simp add: IsValidTransition_def validTransitions_def)
  ultimately obtain t r where t: "Transition ''a'' StateRunning [assigns (running_sets demo_sup ''a'' ''c1'')] ?u = (Inr (), t)"
    "good t" "state_of (db t) ''a'' = Some StateRunning"
    and r: "find_job ''a'' (db ?u) = Some r" "find_job ''a'' (db t) = Some (\<lambda>c. if c = ''state'' then Text StateRunning
       else if stamp_column StateRunning = Some c then Integer (UnixNano (clock ?u (ticks ?u)))
       else case map_of (rev (running_sets demo_sup ''a'' ''c1'')) c of Some v \<Rightarrow> v | None \<Rightarrow> r c)"
    by (rule Transition_goodE [OF _ plain_running_sets])
  have "unmarshal_strings (marshal_strings (job_Args (demo_job ''a''))) = Some (job_Args (demo_job ''a''))"
    by (rule unmarshal_marshal_strings) (auto simp: demo_job_def intro!: utf8_ok_ascii)
  moreover have r1: "r = new_row (demo_job ''a'') (initial_state (demo_job ''a'')) 1000" using r(1) demo_created_row by simp
  ultimately have job: "\<exists>q job. find_job ''a'' (db t) = Some q \<and> scanJob q = Inr job \<and> job_State job = StateRunning \<and>
      job_ContainerID job = Some ''c1''"
    using r(2) unfolding r1
    by (simp add: scanJob_def new_row_def job_values_def running_sets_def stamp_column_def)
  have "\<exists>d. demo_running = snd (track ''a'' ''c1'' (demo_sup\<lparr>engine := d, sup_st := t\<rparr>))"
    using t(1) p by (auto simp: demo_running_def Start_def bnd_def on_docker_def demo_run start_commit_def handle_def on_store_def)
  then obtain d where d: "demo_running = snd (track ''a'' ''c1'' (demo_sup\<lparr>engine := d, sup_st := t\<rparr>))" by blast
  show "good (sup_st demo_running)" "sup_docker demo_running" "tracked demo_running = [(''a'', 0)]"
    "trackers demo_running = [\<lparr>tr_jobID = ''a'', tr_containerID = ''c1'', tr_phase = Attaching\<rparr>]"
    "state_of (tables demo_running) ''a'' = Some StateRunning"
    using t(2,3) by (simp_all add: d track_def)
  show cid: "\<exists>r job. find_job ''a'' (tables demo_running) = Some r \<and> scanJob r = Inr job \<and> job_State job = StateRunning \<and>
     job_ContainerID job = Some ''c1''"
    using job by (simp add: d track_def)
  then show "\<exists>r job. find_job ''a'' (tables demo_running) = Some r \<and> scanJob r = Inr job \<and> job_State job = StateRunning"
    by blast
  have "length (jobs (db demo_created)) = 1" "scan demo_created = (\<lambda>rs. rs)"
    by (simp_all add: demo_created_def demo_eval Let_def)
  then show "length (jobs (tables demo_running)) = 1" "scan (sup_st demo_running) = (\<lambda>rs. rs)"
    using Transition_job_count [of "''a''" StateRunning "[assigns (running_sets demo_sup ''a'' ''c1'')]" ?u]
      Transition_env(3) [of "''a''" StateRunning "[assigns (running_sets demo_sup ''a'' ''c1'')]" ?u] t(1)
    by (simp_all add: d track_def)
  show "sup_pid demo_running = 42" by (simp add: d track_def)
  show "map_order demo_running = (\<lambda>ks. ks)" by (simp add: d track_def demo_sup_def sup_New_def)
  show "cc_GracePeriod (sup_cfg demo_running) = 30 * 1000000000"
    by (simp add: d track_def demo_sup_def sup_New_def Load_def envDur_def TimeSecond_def Let_def)
qed

definition demo_exited :: string where
  "demo_exited = ''[{\"State\":{\"ExitCode\":143}}]''"

definition demo_line :: string where
  "demo_line = ''{\"type\":\"checkpoint\",\"epoch\":3,\"progress\":0.5,\"found\":7,\"state_path\":\"/state/s\"}''"

abbreviation killed :: Inspect where
  "killed \<equiv> \<lparr>insp_ID = '''', insp_Running = False, insp_ExitCode = 143, insp_Labels = []\<rparr>"

lemma demo_inspect: "docker_Inspect (demo_cli demo_exited) c d = (Inr killed, d @ [[''inspect'', c]])"
proof -
  have "unmarshal_containers inspect_fields demo_exited =
     Some [zero_raw\<lparr>rc_state := \<lparr>rs_running = False, rs_exit_code = 143, rs_status = ''''\<rparr>\<rparr>]" by code_simp
  then show ?thesis by (simp add: docker_Inspect_def demo_cli_def zero_raw_def)
qed

abbreviation demo_fields :: "(string \<times> json) list" where
  "demo_fields \<equiv> [(''type'', JStr ''checkpoint''), (''epoch'', JNum ''3''), (''progress'', JNum ''0.5''), (''found'', JNum ''7''),
     (''state_path'', JStr ''/state/s'')]"

lemma demo_fields_read: "parse_json demo_line = Some (JObj demo_fields)" by code_simp

lemma demo_log: "scan_lines (demo_line @ [CHR 0x0A]) = [demo_line]" "line_event demo_line = LineCheckpoint 3 7 ''/state/s''"
proof -
  show "scan_lines (demo_line @ [CHR 0x0A]) = [demo_line]"
    by (simp add: scan_lines_def demo_line_def drop_CR_def Let_def)
  have "TrimSpace demo_line = demo_line" by code_simp
  moreover have "HasPrefix demo_line ''{''" "demo_line \<noteq> []" by (simp_all add: demo_line_def HasPrefix_def)
  moreover have "Atoi ''3'' = Inr 3" "Atoi ''7'' = Inr 7" "float64_ok ''0.5''" by code_simp+
  ultimately show "line_event demo_line = LineCheckpoint 3 7 ''/state/s''"
    by (simp add: line_event_def demo_fields_read unmarshal_checkpoint_def field_vals_lower lower_char_def into_string_def into_int64_def into_float64_def)
qed

theorem log_decides_the_job_witness:
  "\<exists>s' r'. runStream (demo_cli demo_exited) 0 (demo_line @ [CHR 0x0A]) demo_running = (Inr (), s') \<and>
     find_job ''a'' (tables s') = Some r' \<and> r' ''state'' = Text StateFailed \<and> r' ''exit_code'' = Integer 143 \<and>
     r' ''last_checkpoint_epoch'' = Integer 3 \<and> r' ''last_checkpoint_path'' = Text ''/state/s''"
proof -
  note f = demo_running_facts
  obtain r where r: "find_job ''a'' (tables demo_running) = Some r"
    using f(5) by (auto simp: state_of_def split: option.splits)
  have act: "active_state StateRunning" by (simp add: active_state_def)
  have log: "FollowLogs (demo_cli demo_exited) ''c1'' (engine demo_running) =
     (Inr (), engine demo_running @ [[''logs'', ''--follow'', ''--timestamps=false'', ''c1'']])"
    by (simp add: FollowLogs_def simple_cmd_def demo_cli_def)
  have "last_checkpoint [demo_line] = Some (LineCheckpoint 3 7 ''/state/s'')" "exit_state killed False = StateFailed"
    by (simp_all add: last_checkpoint_def is_checkpoint_def demo_log exit_state_def)
  moreover have "LineCompleted \<notin> line_event ` set [demo_line]" by (simp add: demo_log)
  moreover have "0 < length (trackers demo_running)"
    "trackers demo_running ! 0 = \<lparr>tr_jobID = ''a'', tr_containerID = ''c1'', tr_phase = Attaching\<rparr>" by (simp_all add: f(4))
  ultimately show ?thesis
    using log_decides_the_job [OF f(1,2) _ _ r f(5) act log demo_inspect, of 0 "demo_line @ [CHR 0x0A]"]
    unfolding demo_log(1) checkpointed_def by fastforce
qed

section \<open>Graceful shutdown\<close>

text \<open>The state \<open>markInterrupted\<close> aims at.\<close>

definition interrupted_state :: "Job \<Rightarrow> State" where
  "interrupted_state job =
     (if job_LastCheckpointAt job = None then StateInterruptedUnresumable else StateInterruptedResumable)"

lemma markInterrupted_run:
  assumes "good (sup_st s)" and "find_job i (tables s) = Some r" and "scanJob r = Inr job"
    and "active_state (job_State job)"
  shows "\<exists>t. markInterrupted i fault s = (Inr (), s\<lparr>sup_st := t\<rparr>) \<and> good t \<and> state_of (db t) i = Some (interrupted_state job)"
proof -
  let ?t = "(sup_st s)\<lparr>calls := Suc (calls (sup_st s))\<rparr>" and ?n = "interrupted_state job"
  have get: "GetJob i (sup_st s) = (Inr job, ?t)" by (rule GetJob_good [OF assms(1-3)])
  have t: "good ?t" "state_of (db ?t) i = Some (job_State job)" using assms(1) state_of_scanned [OF assms(2,3)] by simp_all
  have ok: "IsValidTransition (job_State job) ?n" "\<not> IsTerminal (job_State job)"
    using assms(4) by (auto simp: active_state_def interrupted_state_def IsValidTransition_def validTransitions_def IsTerminal_def state_defs)
  from t(1) plain_sets_simps(1) t(2) ok(1) obtain u where u: "Transition i ?n [assigns []] ?t = (Inr (), u)" "good u" "state_of (db u) i = Some ?n"
    by (rule Transition_goodE)
  then have "markInterrupted i fault s = (Inr (), s\<lparr>sup_st := u\<rparr>)"
    using get ok(2) unfolding markInterrupted_def Transition_no_setters
    by (auto simp: handle_def on_store_def Let_def dropped_def interrupted_state_def)
  with u show ?thesis by blast
qed

lemma markInterrupted_terminal:
  assumes "state_of (tables s) i = Some st" and "IsTerminal st"
  shows "state_of (tables (snd (markInterrupted i fault s))) i = Some st" "fst (markInterrupted i fault s) = Inr ()"
proof -
  show "state_of (tables (snd (markInterrupted i fault s))) i = Some st"
    using keepsD [OF finished.keeps_markInterrupted [of i st i fault], of s] assms by auto
  show "fst (markInterrupted i fault s) = Inr ()"
    by (cases "GetJob i (sup_st s)"; cases "fst (GetJob i (sup_st s))")
      (auto simp: markInterrupted_def handle_def on_store_def dropped_on_store Let_def)
qed



end
