(* ===== verification/Recovery.thy ===== *)
theory Recovery
  imports SupervisorProps
begin

text \<open>
  Model of \<open>internal/recovery\<close>: the scan at startup that reconciles the job log with the
  containers the engine reports, and its properties. The reconciler's three fields are the
  supervisor's state here, as they share the store and the Docker client.
\<close>

record Result =
  Reattached :: nat
  MarkedResumable :: nat
  MarkedUnresumable :: nat
  ResumeScheduled :: nat

definition zero_result :: Result where
  "zero_result = \<lparr>Reattached = 0, MarkedResumable = 0, MarkedUnresumable = 0, ResumeScheduled = 0\<rparr>"

text \<open>The container of each job; a running one is preferred over one that is not.\<close>

definition add_live :: "(string \<rightharpoonup> ContainerSummary) \<Rightarrow> ContainerSummary \<Rightarrow> (string \<rightharpoonup> ContainerSummary)" where
  "add_live m c =
     (let jid = label c LabelJobID in
      if jid = '''' then m
      else if m jid = None \<or> sum_State c = ''running'' \<and> sum_State (the (m jid)) \<noteq> ''running''
      then m(jid \<mapsto> c) else m)"

definition liveByJobID :: "ContainerSummary list \<Rightarrow> (string \<rightharpoonup> ContainerSummary)" where
  "liveByJobID live = foldl add_live Map.empty live"

text \<open>\<open>supervisor.Start\<close> of a job to be resumed: an error is logged, success is counted.\<close>

definition resume :: "'d cli \<Rightarrow> (string \<Rightarrow> string option) \<Rightarrow> string \<Rightarrow> Result \<Rightarrow> ('d, Result) sup_op" where
  "resume cli mkdirAll jobID res =
     handle (Start cli mkdirAll jobID) (\<lambda>_. ret res)
       (\<lambda>_. ret (res\<lparr>ResumeScheduled := ResumeScheduled res + 1\<rparr>))"

text \<open>The body of the loop over the jobs.\<close>

definition recover_job :: "'d cli \<Rightarrow> (string \<Rightarrow> string option) \<Rightarrow> bool \<Rightarrow> (string \<rightharpoonup> ContainerSummary) \<Rightarrow>
    string \<Rightarrow> Job \<Rightarrow> Result \<Rightarrow> ('d, Result) sup_op" where
  "recover_job cli mkdirAll autoResume live currentPID j res =
     (let i = job_ID j;
          attached = (case live i of None \<Rightarrow> None | Some c \<Rightarrow> if sum_State c = ''running'' then Some c else None)
      in if job_State j = StateRunning \<or> job_State j = StateCheckpointing then
           (case attached of
              Some c \<Rightarrow>
                if label c LabelControllerPID \<noteq> currentPID
                then bnd (AdoptRunning i (sum_ID c)) (\<lambda>_. ret (res\<lparr>Reattached := Reattached res + 1\<rparr>))
                else ret res
            | None \<Rightarrow>
                if job_LastCheckpointAt j \<noteq> None then
                  bnd (dropped (on_store (Transition i StateInterruptedResumable []))) (\<lambda>_.
                  let res' = res\<lparr>MarkedResumable := MarkedResumable res + 1\<rparr> in
                  if autoResume then resume cli mkdirAll i res' else ret res')
                else
                  bnd (dropped (on_store (Transition i StateInterruptedUnresumable []))) (\<lambda>_.
                  ret (res\<lparr>MarkedUnresumable := MarkedUnresumable res + 1\<rparr>)))
         else if job_State j = StateInterruptedResumable then
           (if autoResume then resume cli mkdirAll i res else ret res)
         else ret res)"

fun recover_jobs :: "'d cli \<Rightarrow> (string \<Rightarrow> string option) \<Rightarrow> bool \<Rightarrow> (string \<rightharpoonup> ContainerSummary) \<Rightarrow>
    string \<Rightarrow> Job list \<Rightarrow> Result \<Rightarrow> ('d, Result) sup_op" where
  "recover_jobs cli mkdirAll autoResume live pid [] res = ret res"
| "recover_jobs cli mkdirAll autoResume live pid (j # js) res =
     bnd (recover_job cli mkdirAll autoResume live pid j res) (recover_jobs cli mkdirAll autoResume live pid js)"

definition scanned_states :: "State list" where
  "scanned_states = [StateRunning, StateCheckpointing, StatePending, StateInterruptedResumable]"

text \<open>\<open>Reconciler.Run\<close>. An error of \<open>ListByLabel\<close> is logged and leaves no live container.\<close>

definition recovery_Run :: "'d cli \<Rightarrow> (string \<Rightarrow> string option) \<Rightarrow> bool \<Rightarrow> ('d, Result) sup_op" where
  "recovery_Run cli mkdirAll autoResume =
     bnd (on_store (JobsInStates scanned_states)) (\<lambda>pendingJobs.
     bnd (handle (on_docker (docker_ListByLabel cli LabelJobID '''')) (\<lambda>_. ret []) ret) (\<lambda>live.
     with_state (\<lambda>s.
       recover_jobs cli mkdirAll autoResume (liveByJobID live) (Itoa (sup_pid s)) pendingJobs zero_result)))"

section \<open>Which container stands for a job\<close>

lemma liveByJobID_snoc: "liveByJobID (live @ [c]) = add_live (liveByJobID live) c"
  by (simp add: liveByJobID_def)

lemma add_live_at:
  "add_live m c i =
     (if i = '''' \<or> label c LabelJobID \<noteq> i then m i
      else case m i of
        None \<Rightarrow> Some c
      | Some x \<Rightarrow> if sum_State c = ''running'' \<and> sum_State x \<noteq> ''running'' then Some c else Some x)"
proof (cases "label c LabelJobID = i")
  case True
  then show ?thesis by (cases "m i") (simp_all add: add_live_def Let_def)
next
  case False
  then show ?thesis by (simp add: add_live_def Let_def)
qed

text \<open>
  of the containers labelled with a job, the scan takes the first that is running, and the
  first of all where none is; containers without the label stand for no job.
\<close>

theorem liveByJobID_prefers_running:
  "liveByJobID live i =
     (if i = '''' then None
      else case find (\<lambda>c. label c LabelJobID = i \<and> sum_State c = ''running'') live of
        Some c \<Rightarrow> Some c
      | None \<Rightarrow> find (\<lambda>c. label c LabelJobID = i) live)"
proof (induction live rule: rev_induct)
  case Nil
  then show ?case by (simp add: liveByJobID_def)
next
  case (snoc c live)
  let ?r = "find (\<lambda>c. label c LabelJobID = i \<and> sum_State c = ''running'') live"
  let ?f = "find (\<lambda>c. label c LabelJobID = i) live"
  have run: "sum_State x = ''running''" if "?r = Some x" for x using find_Some_iff_hd [OF that] by simp
  have none: "sum_State x \<noteq> ''running''" if "?r = None" and "?f = Some x" for x
    using that(1) find_Some_iff_hd [OF that(2)] by (auto simp: find_None_iff)
  show ?case
  proof (cases "i = '''' \<or> label c LabelJobID \<noteq> i")
    case True
    then show ?thesis unfolding liveByJobID_snoc add_live_at using snoc.IH by (auto simp: find_append split: option.splits)
  next
    case False
    then have l: "label c LabelJobID = i" "i \<noteq> ''''" by simp_all
    show ?thesis
    proof (cases ?r)
      case (Some x)
      with l run [OF Some] show ?thesis unfolding liveByJobID_snoc add_live_at snoc.IH by (simp add: find_append)
    next
      case None
      show ?thesis
      proof (cases ?f)
        case (Some x)
        with None l none [OF None Some] show ?thesis unfolding liveByJobID_snoc add_live_at snoc.IH by (simp add: find_append)
      qed (use None l in \<open>simp add: liveByJobID_snoc add_live_at snoc.IH find_append\<close>)
    qed
  qed
qed

section \<open>What the scan does to one job\<close>

text \<open>The facts about the rest of the system that every operation on job \<open>i\<close> keeps.\<close>

definition others_kept :: "string set \<Rightarrow> 'd Supervisor \<Rightarrow> 'd Supervisor \<Rightarrow> bool" where
  "others_kept I s s' \<longleftrightarrow>
     good (sup_st s') \<and> (\<exists>ts. trackers s' = trackers s @ ts) \<and>
     (\<forall>j. j \<notin> I \<longrightarrow> find_job j (tables s') = find_job j (tables s) \<and> map_of (tracked s') j = map_of (tracked s) j)"

lemma others_kept_refl: "good (sup_st s) \<Longrightarrow> others_kept I s s"
  by (simp add: others_kept_def)

lemma others_kept_trans: "others_kept I s s1 \<Longrightarrow> others_kept J s1 s2 \<Longrightarrow> others_kept (I \<union> J) s s2"
  by (auto simp: others_kept_def)

lemma keeps_others_store:
  assumes "\<And>t. good t \<Longrightarrow> good (snd (m t)) \<and> (\<forall>j. j \<noteq> i \<longrightarrow> find_job j (db (snd (m t))) = find_job j (db t))"
  shows "keeps (others_kept {i} s) (on_store m)"
  using assms by (fastforce simp: keeps_def others_kept_def on_store_def split: prod.splits)

lemma Transition_others:
  assumes "plain_sets kvs" and "good t"
  shows "good (snd (Transition i n [assigns kvs] t)) \<and>
     (\<forall>j. j \<noteq> i \<longrightarrow> find_job j (db (snd (Transition i n [assigns kvs] t))) = find_job j (db t))"
proof -
  obtain r t' where t: "Transition i n [assigns kvs] t = (r, t')" by fastforce
  have "\<forall>j. j \<noteq> i \<longrightarrow> find_job j (db t') = find_job j (db t)"
  proof (cases r)
    case (Inl e)
    with Transition_Inl_db [OF t [unfolded Inl]] show ?thesis by simp
  next
    case (Inr x)
    from Transition_row [OF t [unfolded Inr] assms(1)] show ?thesis by blast
  qed
  with t good_Transition [OF assms(2), of "[assigns kvs]" i n] plain_sets_benign [OF assms(1)] show ?thesis by simp
qed

lemma keeps_others_Transition:
  "plain_sets kvs \<Longrightarrow> keeps (others_kept {i} s) (on_store (Transition i n [assigns kvs]))"
  "keeps (others_kept {i} s) (on_store (Transition i n []))"
  using Transition_others [of kvs] Transition_others [of "[]"]
  by (auto intro!: keeps_others_store simp: Transition_no_setters)

lemma keeps_others_basic:
  "keeps (others_kept {i} s) (on_docker f)" "keeps (others_kept {i} s) check_leader"
  "keeps (others_kept {i} s) (on_store (GetJob k))" "keeps (others_kept {i} s) (on_store read_clock)"
  "keeps (others_kept {i} s) (track i c)"
  by (auto simp: keeps_def others_kept_def on_store_def on_docker_def check_leader_run GetJob_db read_clock_def track_def
      split: prod.splits option.splits)

lemma keeps_others_Start: "keeps (others_kept {i} s) (Start cli mkdirAll i)"
  unfolding Start_def start_prepare_def start_commit_def dropped_def
  by (intro keeps_intros keeps_handle keeps_with_state keeps_others_basic keeps_others_Transition plain_running_sets)

lemma keeps_others_recover: "keeps (others_kept {job_ID j} s) (recover_job cli mkdirAll auto live pid j res)"
  unfolding recover_job_def resume_def dropped_def AdoptRunning_def Let_def
  by (intro keeps_intros keeps_handle keeps_others_basic keeps_others_Transition keeps_others_Start)

lemma Start_not_nil: "fst (Start cli mkdirAll i s) \<noteq> Inl NilDereference"
proof -
  obtain x s1 where p: "start_prepare mkdirAll i s = (x, s1)" by fastforce
  note f = start_prepare_frame [OF p]
  show ?thesis
  proof (cases x)
    case (Inl e)
    with f p show ?thesis by (simp add: Start_def bnd_def)
  next
    case (Inr opts)
    with f have d: "sup_docker s1" by simp
    obtain y d1 where run: "docker_Run cli opts (engine s1) = (y, d1)" by fastforce
    show ?thesis
    proof (cases y)
      case (Inl e)
      with p \<open>x = Inr opts\<close> d run show ?thesis by (simp add: Start_def bnd_def on_docker_def)
    next
      case (Inr cid)
      let ?s = "s1\<lparr>engine := d1\<rparr>"
      obtain z t where "Transition i StateRunning [assigns (running_sets ?s i cid)] (sup_st ?s) = (z, t)" by fastforce
      with p \<open>x = Inr opts\<close> d run Inr show ?thesis
        by (cases z) (simp_all add: Start_def bnd_def on_docker_def start_commit_def handle_def on_store_def track_def
            dropped_on_docker)
    qed
  qed
qed

text \<open>A start of a job ends with the job \<open>running\<close> and tracked, or changes no table.\<close>

lemma Start_effect:
  obtains (started) s' where "Start cli mkdirAll i s = (Inr (), s')" and "state_of (tables s') i = Some StateRunning"
      and "map_of (tracked s') i \<noteq> None"
  | (refused) e s' where "Start cli mkdirAll i s = (Inl e, s')" and "e \<noteq> NilDereference" and "tables s' = tables s"
proof (cases "Start cli mkdirAll i s")
  case (Pair r s')
  show thesis
  proof (cases r)
    case (Inl e)
    with Pair Start_undone [of cli mkdirAll i s e s'] Start_not_nil [of cli mkdirAll i s] show thesis by (auto intro: refused)
  next
    case (Inr x)
    with Pair obtain opts s1 cid s2 where c: "start_commit cli i cid s2 = (Inr (), s')"
      by (auto simp: Start_def elim!: bnd_InrE)
    obtain y t where t: "Transition i StateRunning [assigns (running_sets s2 i cid)] (sup_st s2) = (y, t)" by fastforce
    with c have y: "y = Inr ()" "s' = snd (track i cid (s2\<lparr>sup_st := t\<rparr>))"
      by (cases y; auto simp: start_commit_def handle_def on_store_def bnd_def split: prod.splits sum.splits)+
    have "state_of (db t) i = Some StateRunning"
      using Transition_state_of(1) [OF t [unfolded y(1)]] plain_sets_benign [OF plain_running_sets [of s2 i cid]] by simp
    then show thesis using started Pair Inr y(2) by (simp add: track_def)
  qed
qed

text \<open>The running container of a job, if the scan found one.\<close>

definition attached_to :: "(string \<rightharpoonup> ContainerSummary) \<Rightarrow> Job \<Rightarrow> ContainerSummary option" where
  "attached_to live j =
     (case live (job_ID j) of None \<Rightarrow> None | Some c \<Rightarrow> if sum_State c = ''running'' then Some c else None)"

text \<open>
  The specification of the scan, job by job. A job that was active and whose worker is alive
  keeps its state; without a live worker it becomes unresumable where it has no checkpoint and
  resumable where it has one. A resumable job may be \<open>running\<close> again where resuming is
  asked for. Every other job keeps its state.
\<close>

definition recovered :: "bool \<Rightarrow> (string \<rightharpoonup> ContainerSummary) \<Rightarrow> Job \<Rightarrow> State \<Rightarrow> bool" where
  "recovered auto live j st \<longleftrightarrow>
     (let resumed = (st = StateInterruptedResumable \<or> auto \<and> st = StateRunning) in
      if active_state (job_State j) then
        (if attached_to live j \<noteq> None then st = job_State j
         else if job_LastCheckpointAt j = None then st = StateInterruptedUnresumable else resumed)
      else if job_State j = StateInterruptedResumable then resumed
      else st = job_State j)"

text \<open>A live worker is followed again unless its label names the PID of this very controller.\<close>

definition adopted :: "(string \<rightharpoonup> ContainerSummary) \<Rightarrow> string \<Rightarrow> Job \<Rightarrow> 'd Supervisor \<Rightarrow> 'd Supervisor \<Rightarrow> bool" where
  "adopted live pid j s s' \<longleftrightarrow>
     (case attached_to live j of
        None \<Rightarrow> True
      | Some c \<Rightarrow> active_state (job_State j) \<longrightarrow>
          (if label c LabelControllerPID \<noteq> pid
           then \<exists>k. map_of (tracked s') (job_ID j) = Some k \<and> k < length (trackers s') \<and> tr_containerID (trackers s' ! k) = sum_ID c
           else map_of (tracked s') (job_ID j) = map_of (tracked s) (job_ID j)))"

lemma resume_effect:
  assumes "state_of (tables s) i = Some StateInterruptedResumable"
  shows "\<exists>res' s'. resume cli mkdirAll i res s = (Inr res', s') \<and>
     (\<exists>st \<in> {StateInterruptedResumable, StateRunning}. state_of (tables s') i = Some st)"
  by (cases rule: Start_effect [of cli mkdirAll i s]) (use assms in \<open>auto simp: resume_def handle_def\<close>)

lemma mark_effect:
  assumes "good (sup_st s)" and "state_of (tables s) i = Some cur" and "IsValidTransition cur n"
  shows "\<exists>t. dropped (on_store (Transition i n [])) s = (Inr (), s\<lparr>sup_st := t\<rparr>) \<and> state_of (db t) i = Some n"
proof -
  from assms(1) plain_sets_simps(1) assms(2,3) obtain t where "Transition i n [assigns []] (sup_st s) = (Inr (), t)"
    "state_of (db t) i = Some n" by (rule Transition_goodE)
  then show ?thesis by (intro exI [of _ t]) (simp add: dropped_on_store Transition_no_setters)
qed

lemma active_cases: "active_state st \<longleftrightarrow> st = StateRunning \<or> st = StateCheckpointing"
  by (simp add: active_state_def)

lemma active_interruptible:
  "active_state st \<Longrightarrow> IsValidTransition st StateInterruptedResumable \<and> IsValidTransition st StateInterruptedUnresumable"
  by (auto simp: active_state_def IsValidTransition_def validTransitions_def state_defs)

lemma recover_job_effect:
  assumes "good (sup_st s)" and "state_of (tables s) (job_ID j) = Some (job_State j)"
  shows "\<exists>res' s'. recover_job cli mkdirAll auto live pid j res s = (Inr res', s') \<and> others_kept {job_ID j} s s' \<and>
     (\<exists>st. state_of (tables s') (job_ID j) = Some st \<and> recovered auto live j st) \<and> adopted live pid j s s'"
proof -
  let ?i = "job_ID j"
  let ?run = "recover_job cli mkdirAll auto live pid j res s"
  have kept: "others_kept {?i} s (snd ?run)"
    by (rule keepsD [OF keeps_others_recover others_kept_refl [OF assms(1)]])
  have att: "(case live ?i of None \<Rightarrow> None | Some c \<Rightarrow> if sum_State c = ''running'' then Some c else None) = attached_to live j"
    by (simp add: attached_to_def)
  have "\<exists>res' s'. ?run = (Inr res', s') \<and> (\<exists>st. state_of (tables s') ?i = Some st \<and> recovered auto live j st) \<and> adopted live pid j s s'"
  proof (cases "active_state (job_State j)")
    case True
    note act = True
    show ?thesis
    proof (cases "attached_to live j")
      case (Some c)
      show ?thesis
      proof (cases "label c LabelControllerPID = pid")
        case True
        then have "?run = (Inr res, s)" using act [unfolded active_cases] Some by (simp add: recover_job_def Let_def att)
        with True Some assms(2) act show ?thesis by (simp add: recovered_def adopted_def Let_def)
      next
        case False
        then have "?run = (Inr (res\<lparr>Reattached := Reattached res + 1\<rparr>), snd (track ?i (sum_ID c) s))"
          using act [unfolded active_cases] Some by (simp add: recover_job_def Let_def att AdoptRunning_def track_def bnd_def)
        with False Some assms(2) act show ?thesis by (simp add: recovered_def adopted_def Let_def track_def)
      qed
    next
      case None
      show ?thesis
      proof (cases "job_LastCheckpointAt j")
        case None
        then obtain t where "dropped (on_store (Transition ?i StateInterruptedUnresumable [])) s = (Inr (), s\<lparr>sup_st := t\<rparr>)"
          "state_of (db t) ?i = Some StateInterruptedUnresumable"
          using mark_effect [OF assms] active_interruptible [OF act] by blast
        with None \<open>attached_to live j = None\<close> act show ?thesis
          by (simp add: recover_job_def Let_def att recovered_def adopted_def active_cases bnd_def)
      next
        case (Some x)
        then obtain t where t: "dropped (on_store (Transition ?i StateInterruptedResumable [])) s = (Inr (), s\<lparr>sup_st := t\<rparr>)"
          "state_of (db t) ?i = Some StateInterruptedResumable"
          using mark_effect [OF assms] active_interruptible [OF act] by blast
        let ?res = "res\<lparr>MarkedResumable := MarkedResumable res + 1\<rparr>"
        have "?run = (if auto then resume cli mkdirAll ?i ?res (s\<lparr>sup_st := t\<rparr>) else (Inr ?res, s\<lparr>sup_st := t\<rparr>))"
          using Some None act [unfolded active_cases] t(1) by (simp add: recover_job_def Let_def att bnd_def)
        with resume_effect [of "s\<lparr>sup_st := t\<rparr>" ?i cli mkdirAll ?res] t(2) Some None act show ?thesis
          by (cases auto) (auto simp: recovered_def adopted_def Let_def)
      qed
    qed
  next
    case False
    then have na: "job_State j \<noteq> StateRunning" "job_State j \<noteq> StateCheckpointing" by (simp_all add: active_cases)
    have ad: "adopted live pid j s s'" for s' :: "'a Supervisor" using False by (simp add: adopted_def split: option.splits)
    show ?thesis
    proof (cases "job_State j = StateInterruptedResumable")
      case True
      with na have "?run = (if auto then resume cli mkdirAll ?i res s else (Inr res, s))"
        by (simp add: recover_job_def Let_def)
      with True False ad assms(2) resume_effect [of s ?i cli mkdirAll res] show ?thesis
        by (cases auto) (auto simp: recovered_def Let_def)
    next
      case 2: False
      with na have "?run = (Inr res, s)" by (simp add: recover_job_def Let_def)
      with 2 False ad assms(2) show ?thesis by (simp add: recovered_def Let_def)
    qed
  qed
  with kept show ?thesis by auto
qed

section \<open>The whole scan\<close>

lemma adopted_later:
  assumes "adopted live pid j s s1" and "others_kept I s1 s'" and "job_ID j \<notin> I"
  shows "adopted live pid j s s'"
proof (cases "attached_to live j")
  case (Some c)
  obtain ts where ts: "trackers s' = trackers s1 @ ts" using assms(2) by (auto simp: others_kept_def)
  have tr: "map_of (tracked s') (job_ID j) = map_of (tracked s1) (job_ID j)" using assms(2,3) by (simp add: others_kept_def)
  show ?thesis
    using assms(1) Some unfolding adopted_def tr ts by (auto simp: nth_append split: if_splits)
qed (simp add: adopted_def)

lemma adopted_earlier:
  assumes "adopted live pid j s1 s'" and "others_kept I s s1" and "job_ID j \<notin> I"
  shows "adopted live pid j s s'"
proof -
  have "map_of (tracked s1) (job_ID j) = map_of (tracked s) (job_ID j)" using assms(2,3) by (simp add: others_kept_def)
  with assms(1) show ?thesis unfolding adopted_def by (simp split: option.splits)
qed

lemma state_of_kept: "others_kept I s s' \<Longrightarrow> i \<notin> I \<Longrightarrow> state_of (tables s') i = state_of (tables s) i"
  by (simp add: others_kept_def state_of_def)

lemma recover_jobs_effect:
  assumes "good (sup_st s)" and "distinct (map job_ID js)"
    and "\<forall>j \<in> set js. state_of (tables s) (job_ID j) = Some (job_State j)"
  shows "\<exists>res' s'. recover_jobs cli mkdirAll auto live pid js res s = (Inr res', s') \<and> others_kept (job_ID ` set js) s s' \<and>
     (\<forall>j \<in> set js. (\<exists>st. state_of (tables s') (job_ID j) = Some st \<and> recovered auto live j st) \<and> adopted live pid j s s')"
  using assms
proof (induction js arbitrary: s res)
  case Nil
  then show ?case by (simp add: others_kept_refl)
next
  case (Cons j js)
  let ?i = "job_ID j"
  from Cons.prems have g: "good (sup_st s)" and st: "state_of (tables s) ?i = Some (job_State j)"
    and dist: "distinct (map job_ID js)" and new: "?i \<notin> job_ID ` set js" by auto
  obtain res1 s1 where 1: "recover_job cli mkdirAll auto live pid j res s = (Inr res1, s1)" "others_kept {?i} s s1"
    "\<exists>st. state_of (tables s1) ?i = Some st \<and> recovered auto live j st" "adopted live pid j s s1"
    using recover_job_effect [OF g st] by blast
  have ne: "job_ID k \<noteq> ?i" if "k \<in> set js" for k using new that by (metis image_eqI)
  then have "\<forall>k \<in> set js. state_of (tables s1) (job_ID k) = Some (job_State k)"
    using Cons.prems(3) state_of_kept [OF 1(2)] by simp
  moreover have "good (sup_st s1)" using 1(2) by (simp add: others_kept_def)
  ultimately obtain res2 s2 where 2: "recover_jobs cli mkdirAll auto live pid js res1 s1 = (Inr res2, s2)"
    "others_kept (job_ID ` set js) s1 s2"
    "\<forall>k \<in> set js. (\<exists>st. state_of (tables s2) (job_ID k) = Some st \<and> recovered auto live k st) \<and> adopted live pid k s1 s2"
    using Cons.IH [OF _ dist, of s1 res1] by blast
  have "recover_jobs cli mkdirAll auto live pid (j # js) res s = (Inr res2, s2)" using 1(1) 2(1) by (simp add: bnd_def)
  moreover have "others_kept (job_ID ` set (j # js)) s s2" using others_kept_trans [OF 1(2) 2(2)] by simp
  moreover have "(\<exists>st. state_of (tables s2) ?i = Some st \<and> recovered auto live j st) \<and> adopted live pid j s s2"
    using 1(3) state_of_kept [OF 2(2) new] adopted_later [OF 1(4) 2(2) new] by simp
  moreover have "adopted live pid k s s2" if "k \<in> set js" for k
    using 2(3) that ne [OF that] by (intro adopted_earlier [OF _ 1(2)]) simp_all
  ultimately show ?case using 2(3) by auto
qed

text \<open>What the scan needs of the store: it works, every row can be read, the engine's order is a reordering.\<close>

definition scannable :: "Store \<Rightarrow> bool" where
  "scannable t \<longleftrightarrow> good t \<and> (\<forall>r \<in> set (jobs (db t)). readable r) \<and> mset (scan t (jobs (db t))) = mset (jobs (db t))"

lemma job_of_facts:
  assumes "db_inv d" and "r \<in> set (jobs d)" and "readable r"
  shows "find_job (job_ID (job_of r)) d = Some r" and "state_of d (job_ID (job_of r)) = Some (job_State (job_of r))"
    and "r ''state'' = Text (job_State (job_of r))"
proof -
  obtain i where i: "has_id i r" using assms(1,2) by (auto simp: db_inv_def row_inv_def has_id_def)
  then have id: "job_ID (job_of r) = i" by (rule job_of_ID [OF assms(3)])
  have "find_job i d \<noteq> None" using assms(2) i by (auto simp: find_job_def find_None_iff)
  then obtain q where q: "find_job i d = Some q" by auto
  with find_job_unique [OF assms(1) q assms(2) i] id show f: "find_job (job_ID (job_of r)) d = Some r" by simp
  show "state_of d (job_ID (job_of r)) = Some (job_State (job_of r))"
    by (rule state_of_scanned [OF f readable_scanJob [OF assms(3)]])
  from scanJob_state [OF readable_scanJob [OF assms(3)]] assms(1,2)
  show "r ''state'' = Text (job_State (job_of r))" by (auto simp: db_inv_def row_inv_def)
qed

lemma scanned_iff:
  "st \<in> set scanned_states \<longleftrightarrow> active_state st \<or> st = StatePending \<or> st = StateInterruptedResumable"
  by (auto simp: scanned_states_def active_state_def)

text \<open>The jobs the scan visits: each once, with its state, and all that are in a scanned state.\<close>

lemma scanned_jobs:
  assumes "scannable t"
  obtains js where "JobsInStates scanned_states t = (Inr js, t\<lparr>calls := Suc (calls t)\<rparr>)"
    and "distinct (map job_ID js)" and "\<forall>j \<in> set js. state_of (db t) (job_ID j) = Some (job_State j)"
    and "set js = {j \<in> job_of ` set (jobs (db t)). job_State j \<in> set scanned_states}"
proof -
  let ?S = "Text ` set scanned_states"
  have sc: "good t" "\<forall>r \<in> set (jobs (db t)). readable r" "mset (scan t (jobs (db t))) = mset (jobs (db t))"
    using assms by (simp_all add: scannable_def)
  define rs where "rs = sort_key created_at (filter (\<lambda>r. r ''state'' \<in> ?S) (scan t (jobs (db t))))"
  have "scanned_states \<noteq> []" by (simp add: scanned_states_def)
  note run = JobsInStates_run [OF goodD(1) [OF sc(1)] sc(2,3) this rs_def]
  have jf: "find_job (job_ID (job_of r)) (db t) = Some r" "state_of (db t) (job_ID (job_of r)) = Some (job_State (job_of r))"
    "r ''state'' = Text (job_State (job_of r))" if "r \<in> set (jobs (db t))" for r
    using job_of_facts [OF goodD(2) [OF sc(1)] that] sc(2) that by blast+
  have rs: "set rs = {r \<in> set (jobs (db t)). r ''state'' \<in> ?S}"
    using mset_eq_set [OF run(2)] by simp
  have id: "r ''id'' = Text (job_ID (job_of r))" if "r \<in> set rs" for r
    using find_job_has_id [OF jf(1)] that rs by (simp add: has_id_def)
  have "distinct (map (\<lambda>r. r ''id'') (filter (\<lambda>r. r ''state'' \<in> ?S) (jobs (db t))))"
    using goodD(2) [OF sc(1)] by (simp add: db_inv_def distinct_map_filter)
  moreover have "mset (map (\<lambda>r. r ''id'') rs) = mset (map (\<lambda>r. r ''id'') (filter (\<lambda>r. r ''state'' \<in> ?S) (jobs (db t))))"
    using run(2) by (simp only: mset_map)
  ultimately have "distinct (map (\<lambda>r. r ''id'') rs)" by (metis mset_eq_imp_distinct_iff)
  moreover have "map (\<lambda>r. r ''id'') rs = map Text (map job_ID (map job_of rs))" using id by simp
  ultimately have "distinct (map job_ID (map job_of rs))" by (metis distinct_map)
  moreover have "\<forall>j \<in> set (map job_of rs). state_of (db t) (job_ID j) = Some (job_State j)" using rs jf(2) by auto
  moreover have "set (map job_of rs) = {j \<in> job_of ` set (jobs (db t)). job_State j \<in> set scanned_states}"
  proof -
    have "r ''state'' \<in> ?S \<longleftrightarrow> job_State (job_of r) \<in> set scanned_states" if "r \<in> set (jobs (db t))" for r
      using jf(3) [OF that] by (simp add: image_iff)
    then show ?thesis using rs by auto
  qed
  ultimately show thesis by (intro that [OF run(1)])
qed

lemma job_of_inj:
  assumes "scannable t" and "q \<in> set (jobs (db t))" and "r \<in> set (jobs (db t))" and "job_ID (job_of q) = job_ID (job_of r)"
  shows "q = r"
proof -
  have "find_job (job_ID (job_of x)) (db t) = Some x" if "x \<in> set (jobs (db t))" for x
    using job_of_facts(1) [of "db t" x] assms(1) that by (auto simp: scannable_def good_def)
  with assms(2-4) show ?thesis by (metis option.inject)
qed

lemma recovery_Run_jobs:
  assumes "JobsInStates scanned_states (sup_st s) = (Inr js, t)" and "sup_docker s"
    and "docker_ListByLabel cli LabelJobID '''' (engine s) = (lr, d)"
  shows "recovery_Run cli mkdirAll auto s =
     recover_jobs cli mkdirAll auto (liveByJobID (case lr of Inr l \<Rightarrow> l | Inl _ \<Rightarrow> [])) (Itoa (sup_pid s)) js zero_result
       (s\<lparr>sup_st := t, engine := d\<rparr>)"
proof -
  have 1: "on_store (JobsInStates scanned_states) s = (Inr js, s\<lparr>sup_st := t\<rparr>)" using assms(1) by (simp add: on_store_def)
  have 2: "handle (on_docker (docker_ListByLabel cli LabelJobID '''')) (\<lambda>_. ret []) ret (s\<lparr>sup_st := t\<rparr>) =
      (Inr (case lr of Inr l \<Rightarrow> l | Inl _ \<Rightarrow> []), s\<lparr>sup_st := t, engine := d\<rparr>)"
    using assms(2,3) by (cases lr) (simp_all add: handle_def on_docker_def)
  show ?thesis by (simp add: recovery_Run_def bnd_def 1 2)
qed

text \<open>The scan on a store it can read: its jobs, its live containers, and the loop over them.\<close>

lemma recovery_Run_effect:
  assumes "scannable (sup_st s)" and "sup_docker s"
    and "docker_ListByLabel cli LabelJobID '''' (engine s) = (lr, d)"
    and "live = liveByJobID (case lr of Inr l \<Rightarrow> l | Inl _ \<Rightarrow> [])"
  obtains res s' where "recovery_Run cli mkdirAll auto s = (Inr res, s')" and "good (sup_st s')"
    and "\<And>r. r \<in> set (jobs (tables s)) \<Longrightarrow>
       \<exists>st. state_of (tables s') (job_ID (job_of r)) = Some st \<and> recovered auto live (job_of r) st"
    and "\<And>r. r \<in> set (jobs (tables s)) \<Longrightarrow> active_state (job_State (job_of r)) \<Longrightarrow>
       adopted live (Itoa (sup_pid s)) (job_of r) s s'"
proof -
  let ?t = "sup_st s" and ?pid = "Itoa (sup_pid s)"
  let ?s = "s\<lparr>sup_st := ?t\<lparr>calls := Suc (calls ?t)\<rparr>, engine := d\<rparr>"
  from assms(1) obtain js where js: "JobsInStates scanned_states ?t = (Inr js, ?t\<lparr>calls := Suc (calls ?t)\<rparr>)"
    "distinct (map job_ID js)" "\<forall>j \<in> set js. state_of (db ?t) (job_ID j) = Some (job_State j)"
    "set js = {j \<in> job_of ` set (jobs (db ?t)). job_State j \<in> set scanned_states}" by (rule scanned_jobs)
  have run: "recovery_Run cli mkdirAll auto s = recover_jobs cli mkdirAll auto live ?pid js zero_result ?s"
    unfolding assms(4) by (rule recovery_Run_jobs [OF js(1) assms(2,3)])
  have gs: "good (sup_st ?s)" "\<forall>j \<in> set js. state_of (tables ?s) (job_ID j) = Some (job_State j)"
    using assms(1) js(3) by (simp_all add: scannable_def)
  from recover_jobs_effect [OF gs(1) js(2) gs(2), of cli mkdirAll auto live ?pid zero_result, folded run]
  obtain res s' where e: "recovery_Run cli mkdirAll auto s = (Inr res, s')" "others_kept (job_ID ` set js) ?s s'"
    "\<forall>j \<in> set js. (\<exists>st. state_of (tables s') (job_ID j) = Some st \<and> recovered auto live j st) \<and> adopted live ?pid j ?s s'"
    by (elim exE conjE)
  have st: "\<exists>st. state_of (tables s') (job_ID (job_of r)) = Some st \<and> recovered auto live (job_of r) st"
    if r: "r \<in> set (jobs (tables s))" for r
  proof (cases "job_of r \<in> set js")
    case False
    have "job_ID (job_of r) \<notin> job_ID ` set js"
    proof
      assume "job_ID (job_of r) \<in> job_ID ` set js"
      then obtain q where "q \<in> set (jobs (tables s))" "job_ID (job_of q) = job_ID (job_of r)" "job_of q \<in> set js"
        unfolding js(4) by auto
      with job_of_inj [OF assms(1) _ r, of q] False show False by simp
    qed
    moreover have "state_of (tables s) (job_ID (job_of r)) = Some (job_State (job_of r))"
      using job_of_facts(2) [OF _ r] assms(1) r by (simp add: scannable_def good_def)
    moreover have "job_State (job_of r) \<notin> set scanned_states" using False js(4) r by blast
    ultimately show ?thesis using state_of_kept [OF e(2)] by (simp add: recovered_def scanned_iff)
  next
    case True
    from bspec [OF e(3) this] show ?thesis by (rule conjunct1)
  qed
  have ad: "adopted live ?pid (job_of r) s s'" if "r \<in> set (jobs (tables s))" "active_state (job_State (job_of r))" for r
  proof -
    have "job_of r \<in> set js" using that js(4) by (simp add: scanned_iff)
    from bspec [OF e(3) this] have "adopted live ?pid (job_of r) ?s s'" by (rule conjunct2)
    then show ?thesis by (simp add: adopted_def split: option.splits)
  qed
  from e(2) have "good (sup_st s')" by (simp add: others_kept_def)
  from that [OF e(1) this st ad] show thesis .
qed

text \<open>The containers the scan goes by; none where the engine cannot be asked.\<close>

definition seen_by :: "docker_error + ContainerSummary list \<Rightarrow> (string \<rightharpoonup> ContainerSummary)" where
  "seen_by lr = liveByJobID (case lr of Inr l \<Rightarrow> l | Inl _ \<Rightarrow> [])"

lemma scanned_row:
  assumes "scannable (sup_st s)" and "find_job i (tables s) = Some r"
  shows "r \<in> set (jobs (tables s))" and "job_ID (job_of r) = i"
  using assms find_job_has_id [OF assms(2)] job_of_ID [of r i] by (auto simp: scannable_def)

text \<open>
  the scan treats every job as the three crash modes prescribe, whatever the engine reports
  (nothing, where it cannot be reached) and whichever resumptions fail: an active job with a
  live worker stays as it is, one without becomes resumable exactly where it has a checkpoint
  and unresumable otherwise, a resumable job is resumed at most, and no other job changes
  state.
\<close>

theorem recovery_follows_the_crash_modes:
  assumes "scannable (sup_st s)" and "sup_docker s" and "docker_ListByLabel cli LabelJobID '''' (engine s) = (lr, d)"
    and "find_job i (tables s) = Some r"
  shows "\<exists>res s' st. recovery_Run cli mkdirAll auto s = (Inr res, s') \<and> state_of (tables s') i = Some st \<and>
     recovered auto (seen_by lr) (job_of r) st"
proof -
  note r = scanned_row [OF assms(1,4)]
  show ?thesis
  proof (rule recovery_Run_effect [OF assms(1-3) seen_by_def, of mkdirAll auto])
    fix res s'
    assume run: "recovery_Run cli mkdirAll auto s = (Inr res, s')"
      and st: "\<And>r. r \<in> set (jobs (tables s)) \<Longrightarrow>
        \<exists>st. state_of (tables s') (job_ID (job_of r)) = Some st \<and> recovered auto (seen_by lr) (job_of r) st"
    from st [OF r(1)] run show ?thesis by (auto simp: r(2))
  qed
qed

lemma demo_scannable: "scannable (sup_st demo_running)"
proof -
  obtain r job where r: "find_job ''a'' (tables demo_running) = Some r" "scanJob r = Inr job"
    using demo_running_facts(8) by blast
  obtain x where x: "jobs (tables demo_running) = [x]" using demo_running_facts(9) by (auto simp: length_Suc_conv)
  with find_job_has_id [OF r(1)] r(2) show ?thesis
    using demo_running_facts(1,10) by (simp add: scannable_def readable_def)
qed

text \<open>The engine knows no container: the job, which has no checkpoint, is lost.\<close>

theorem recovery_follows_the_crash_modes_witness:
  "\<exists>res s'. recovery_Run (demo_cli '''') (\<lambda>_. None) True (demo_running) = (Inr res, s') \<and>
     (\<exists>st \<in> {StateInterruptedUnresumable, StateInterruptedResumable, StateRunning}. state_of (tables s') ''a'' = Some st)"
proof -
  obtain r job where r: "find_job ''a'' (tables demo_running) = Some r" "scanJob r = Inr job" "job_State job = StateRunning"
    using demo_running_facts(8) by blast
  have "TrimSpace '''' = ''''" by code_simp
  then have l: "docker_ListByLabel (demo_cli '''') LabelJobID '''' (engine demo_running) =
      (Inr [], engine demo_running @ [[''ps'', ''-a'', ''--filter'', ''label='' @ label_filter LabelJobID '''', ''--format'', ''{{.ID}}'']])"
    by (simp add: docker_ListByLabel_def demo_cli_def)
  from recovery_follows_the_crash_modes [OF demo_scannable demo_running_facts(2) l r(1), of "\<lambda>_. None" True]
  show ?thesis using r(2,3)
    by (auto simp: recovered_def job_of_def active_state_def attached_to_def seen_by_def liveByJobID_def Let_def split: if_splits)
qed

text \<open>
  C34: a worker that survived is followed again exactly when its label names another PID. The
  job keeps its state in both cases; where the label names the PID of the controller itself, as
  it does after a restart under the same PID, nobody follows the worker's log any more.
\<close>

theorem recovery_adopts_other_pids_only:
  assumes "scannable (sup_st s)" and "sup_docker s" and "docker_ListByLabel cli LabelJobID '''' (engine s) = (lr, d)"
    and "find_job i (tables s) = Some r" and "active_state (job_State (job_of r))"
    and "attached_to (seen_by lr) (job_of r) = Some c" and "tracked s = []"
  shows "\<exists>res s'. recovery_Run cli mkdirAll auto s = (Inr res, s') \<and> state_of (tables s') i = Some (job_State (job_of r)) \<and>
     (if label c LabelControllerPID = Itoa (sup_pid s) then map_of (tracked s') i = None
      else \<exists>k. map_of (tracked s') i = Some k \<and> tr_containerID (trackers s' ! k) = sum_ID c)"
proof -
  note r = scanned_row [OF assms(1,4)]
  show ?thesis
  proof (rule recovery_Run_effect [OF assms(1-3) seen_by_def, of mkdirAll auto])
    fix res s'
    assume run: "recovery_Run cli mkdirAll auto s = (Inr res, s')"
      and st: "\<And>r. r \<in> set (jobs (tables s)) \<Longrightarrow>
        \<exists>st. state_of (tables s') (job_ID (job_of r)) = Some st \<and> recovered auto (seen_by lr) (job_of r) st"
      and ad: "\<And>r. r \<in> set (jobs (tables s)) \<Longrightarrow> active_state (job_State (job_of r)) \<Longrightarrow>
        adopted (seen_by lr) (Itoa (sup_pid s)) (job_of r) s s'"
    from st [OF r(1)] assms(5,6) have "state_of (tables s') i = Some (job_State (job_of r))"
      by (auto simp: recovered_def r(2))
    with run ad [OF r(1) assms(5)] assms(5,6,7) show ?thesis by (auto simp: adopted_def r(2))
  qed
qed

definition demo_found :: string where
  "demo_found = ''[{\"Id\":\"c1\",\"State\":{\"Status\":\"running\"},\"Config\":{\"Labels\":{\"com.jobctl.job_id\":\"a\",\"com.jobctl.controller_pid\":\"42\"}}}]''"

text \<open>The engine lists the container \<open>c1\<close>, launched by a controller with the PID 42 that this one has again.\<close>

definition listing_cli :: "string list list cli" where
  "listing_cli args d = (Inr (if hd args = ''ps'' then ''c1'' else demo_found), d @ [args])"

abbreviation demo_container :: ContainerSummary where
  "demo_container \<equiv> \<lparr>sum_ID = ''c1'', sum_Image = '''', sum_State = ''running'',
     sum_Labels = [(LabelJobID, ''a''), (LabelControllerPID, ''42'')]\<rparr>"

lemma demo_listing: "\<exists>d'. docker_ListByLabel listing_cli LabelJobID '''' d = (Inr [demo_container], d')"
proof -
  have "unmarshal_containers list_fields demo_found = Some [zero_raw\<lparr>rc_id := ''c1'',
     rc_state := \<lparr>rs_running = False, rs_exit_code = 0, rs_status = ''running''\<rparr>,
     rc_labels := [(''com.jobctl.job_id'', ''a''), (''com.jobctl.controller_pid'', ''42'')]\<rparr>]" by code_simp
  moreover have "filter (\<lambda>l. l \<noteq> '''') (Split (TrimSpace ''c1'') (CHR 0x0A)) = [''c1'']" by code_simp
  ultimately show ?thesis
    by (simp add: docker_ListByLabel_def listing_cli_def to_summary_def zero_raw_def LabelJobID_def LabelControllerPID_def)
qed

theorem recovery_adopts_other_pids_only_witness:
  "\<exists>res s'. recovery_Run listing_cli (\<lambda>_. None) True (demo_running\<lparr>tracked := []\<rparr>) = (Inr res, s') \<and>
     state_of (tables s') ''a'' = Some StateRunning \<and> map_of (tracked s') ''a'' = None"
proof -
  let ?s = "demo_running\<lparr>tracked := []\<rparr>"
  obtain r job where r: "find_job ''a'' (tables ?s) = Some r" "scanJob r = Inr job" "job_State job = StateRunning"
    using demo_running_facts(8) by auto
  obtain d where l: "docker_ListByLabel listing_cli LabelJobID '''' (engine ?s) = (Inr [demo_container], d)"
    using demo_listing by blast
  have sc: "scannable (sup_st ?s)" "sup_docker ?s" using demo_scannable demo_running_facts(2) by simp_all
  have j: "job_of r = job" "job_ID job = ''a''" using r(2) scanned_row(2) [OF sc(1) r(1)] by (simp_all add: job_of_def)
  have "attached_to (seen_by (Inr [demo_container])) (job_of r) = Some demo_container"
    by (simp add: attached_to_def seen_by_def liveByJobID_def add_live_def j label_def Let_def)
  moreover have "active_state (job_State (job_of r))" using r(3) by (simp add: j active_state_def)
  moreover have "Itoa 42 = ''42''" by code_simp
  ultimately show ?thesis
    using recovery_adopts_other_pids_only [OF sc l r(1), of demo_container "\<lambda>_. None" True] r(3)
    by (simp add: j demo_running_facts(11) label_def LabelJobID_def LabelControllerPID_def)
qed

text \<open>
  C1: without a Docker client the scan panics: in \<open>JOBCTL_NO_DOCKER\<close> mode the startup calls a
  method of the nil client, whatever the job log holds.
\<close>

theorem recovery_panics_without_docker:
  assumes "scannable (sup_st s)" and "\<not> sup_docker s"
  shows "fst (recovery_Run cli mkdirAll auto s) = Inl NilDereference"
  using assms(1)
proof (rule scanned_jobs)
  fix js
  assume "JobsInStates scanned_states (sup_st s) = (Inr js, (sup_st s)\<lparr>calls := Suc (calls (sup_st s))\<rparr>)"
  with assms(2) show ?thesis by (simp add: recovery_Run_def bnd_def on_store_def handle_def on_docker_def)
qed

theorem recovery_panics_without_docker_witness:
  "fst (recovery_Run (demo_cli '''') (\<lambda>_. None) True (demo_running\<lparr>sup_docker := False\<rparr>)) = Inl NilDereference"
  using recovery_panics_without_docker [of "demo_running\<lparr>sup_docker := False\<rparr>" "demo_cli ''''" "\<lambda>_. None" True]
  by (simp add: demo_scannable)

end
