(* ===== verification/Registry.thy ===== *)
theory Registry
  imports GoLib
begin

text \<open>
  Model of \<open>internal/registry\<close>: the list of known workers, the parser of the YAML subset it is
  written in, and the look-up.
\<close>

section \<open>Workers and registries\<close>

record Worker =
  wk_Name :: string
  wk_Image :: string
  wk_Command :: string
  wk_CheckpointInterval :: int
  wk_SchemaVersion :: int

definition zero_worker :: Worker where
  "zero_worker = \<lparr>wk_Name = '''', wk_Image = '''', wk_Command = '''', wk_CheckpointInterval = 0, wk_SchemaVersion = 0\<rparr>"

record Registry =
  byName :: "string \<rightharpoonup> Worker"
  order :: "string list"

definition empty_registry :: Registry where
  "empty_registry = \<lparr>byName = Map.empty, order = []\<rparr>"

text \<open>The errors of the parser; a line number where the message has one.\<close>

datatype registry_error =
  ErrUnknownWorker string
| MissingField nat string
| DuplicateName nat string
| FieldOutside nat
| BadField nat string
| NoWorkers
| ReadError string

definition add_worker :: "Registry \<Rightarrow> Worker \<Rightarrow> Registry" where
  "add_worker r w = r\<lparr>byName := (byName r)(wk_Name w \<mapsto> w), order := order r @ [wk_Name w]\<rparr>"

definition default_workers :: "Worker list" where
  "default_workers =
     [\<lparr>wk_Name = ''primes'', wk_Image = ''jobctl/worker:latest'', wk_Command = ''/usr/local/bin/jobworker'',
       wk_CheckpointInterval = 5000, wk_SchemaVersion = 2\<rparr>,
      \<lparr>wk_Name = ''matmul'', wk_Image = ''jobctl/worker:latest'', wk_Command = ''/usr/local/bin/jobworker'',
       wk_CheckpointInterval = 1000, wk_SchemaVersion = 1\<rparr>,
      \<lparr>wk_Name = ''wordcount'', wk_Image = ''jobctl/worker:latest'', wk_Command = ''/usr/local/bin/jobworker'',
       wk_CheckpointInterval = 1000, wk_SchemaVersion = 1\<rparr>]"

definition Default :: Registry where
  "Default = foldl add_worker empty_registry default_workers"

section \<open>The parser\<close>

definition setField :: "Worker \<Rightarrow> string \<Rightarrow> string + Worker" where
  "setField w kv =
     (case Index kv '':'' of
        None \<Rightarrow> Inl ''expected key:value''
      | Some colon \<Rightarrow>
          let key = TrimSpace (take colon kv);
              val = Trim (TrimSpace (drop (colon + 1) kv)) [CHR 0x22, CHR 0x27]
          in if key = ''worker_name'' then Inr (w\<lparr>wk_Name := val\<rparr>)
             else if key = ''image'' then Inr (w\<lparr>wk_Image := val\<rparr>)
             else if key = ''command'' then Inr (w\<lparr>wk_Command := val\<rparr>)
             else if key = ''checkpoint_interval'' then
               (case Atoi val of Inl _ \<Rightarrow> Inl key | Inr n \<Rightarrow> Inr (w\<lparr>wk_CheckpointInterval := n\<rparr>))
             else if key = ''schema_version'' then
               (case Atoi val of Inl _ \<Rightarrow> Inl key | Inr n \<Rightarrow> Inr (w\<lparr>wk_SchemaVersion := n\<rparr>))
             else Inr w)"

definition commit_worker :: "Registry \<Rightarrow> Worker \<Rightarrow> nat \<Rightarrow> registry_error + Registry" where
  "commit_worker r w ln =
     (if wk_Name w = '''' then Inl (MissingField ln ''worker_name'')
      else if wk_Image w = '''' then Inl (MissingField ln ''image'')
      else if wk_Command w = '''' then Inl (MissingField ln ''command'')
      else if byName r (wk_Name w) \<noteq> None then Inl (DuplicateName ln (wk_Name w))
      else Inr (add_worker r w))"

text \<open>The parser's variables across lines: the registry, whether \<open>workers:\<close> was seen, the current entry.\<close>

record parse_state =
  ps_out :: Registry
  seenWorkers :: bool
  current :: "Worker option"

definition strip_comment :: "string \<Rightarrow> string" where
  "strip_comment line = (case Index line ''#'' of None \<Rightarrow> line | Some i \<Rightarrow> take i line)"

definition set_current :: "nat \<Rightarrow> Worker \<Rightarrow> string \<Rightarrow> parse_state \<Rightarrow> registry_error + parse_state" where
  "set_current ln w kv st =
     (case setField w kv of Inl e \<Rightarrow> Inl (BadField (ln + 1) e) | Inr w' \<Rightarrow> Inr (st\<lparr>current := Some w'\<rparr>))"

definition commit_current :: "parse_state \<Rightarrow> nat \<Rightarrow> registry_error + Registry" where
  "commit_current st ln =
     (case current st of None \<Rightarrow> Inr (ps_out st) | Some w \<Rightarrow> commit_worker (ps_out st) w ln)"

definition parse_line :: "nat \<Rightarrow> string \<Rightarrow> parse_state \<Rightarrow> registry_error + parse_state" where
  "parse_line ln raw st =
     (let trimmed = TrimRight (strip_comment raw) [CHR '' '', CHR 0x09] in
      if TrimSpace trimmed = '''' then Inr st
      else if \<not> HasPrefix trimmed '' '' \<and> HasPrefix (TrimSpace trimmed) ''workers:'' then Inr (st\<lparr>seenWorkers := True\<rparr>)
      else if \<not> seenWorkers st then Inr st
      else
        let ts = TrimLeft trimmed [CHR '' '', CHR 0x09] in
        if HasPrefix ts ''- '' then
          andThen (commit_current st ln) (\<lambda>out.
            let st' = st\<lparr>ps_out := out, current := Some zero_worker\<rparr>; kv = TrimSpace (drop 2 ts)
            in if kv = '''' then Inr st' else set_current ln zero_worker kv st')
        else case current st of
          None \<Rightarrow> Inl (FieldOutside (ln + 1))
        | Some w \<Rightarrow> set_current ln w ts st)"

fun parse_lines :: "nat \<Rightarrow> string list \<Rightarrow> parse_state \<Rightarrow> registry_error + parse_state" where
  "parse_lines ln [] st = Inr st"
| "parse_lines ln (l # ls) st = andThen (parse_line ln l st) (parse_lines (ln + 1) ls)"

text \<open>
  \<open>Parse\<close> on the bytes of the reader. \<open>len(out.byName) == 0\<close> is asked of \<open>order\<close>, which is filled
  together with it.
\<close>

definition parse_registry :: "string \<Rightarrow> registry_error + Registry" where
  "parse_registry b =
     (let lines = Split b (CHR 0x0A);
          init = \<lparr>ps_out = empty_registry, seenWorkers = False, current = None\<rparr>
      in andThen (parse_lines 0 lines init) (\<lambda>st.
         andThen (commit_current st (length lines)) (\<lambda>out.
         if order out = [] then Inl NoWorkers else Inr out)))"

text \<open>\<open>LoadFile\<close>, on the contents of the file or the error of opening or reading it.\<close>

definition LoadFile :: "string + string \<Rightarrow> registry_error + Registry" where
  "LoadFile f = (case f of Inl e \<Rightarrow> Inl (ReadError e) | Inr b \<Rightarrow> parse_registry b)"

definition Lookup :: "Registry \<Rightarrow> string \<Rightarrow> registry_error + Worker" where
  "Lookup r name = (case byName r name of None \<Rightarrow> Inl (ErrUnknownWorker name) | Some w \<Rightarrow> Inr w)"

definition Names :: "Registry \<Rightarrow> string list" where
  "Names r = order r"

section \<open>Every registry is well formed\<close>

definition complete_worker :: "Worker \<Rightarrow> bool" where
  "complete_worker w \<longleftrightarrow> wk_Name w \<noteq> '''' \<and> wk_Image w \<noteq> '''' \<and> wk_Command w \<noteq> ''''"

definition registry_ok :: "Registry \<Rightarrow> bool" where
  "registry_ok r \<longleftrightarrow> distinct (order r) \<and> dom (byName r) = set (order r) \<and>
     (\<forall>n w. byName r n = Some w \<longrightarrow> wk_Name w = n \<and> complete_worker w)"

lemma registry_ok_empty [simp]: "registry_ok empty_registry"
  by (simp add: registry_ok_def empty_registry_def)

lemma registry_ok_add:
  assumes "registry_ok r" and "byName r (wk_Name w) = None" and "complete_worker w"
  shows "registry_ok (add_worker r w)"
  using assms by (auto simp: registry_ok_def add_worker_def)

lemma commit_worker_ok: "commit_worker r w ln = Inr r' \<Longrightarrow> registry_ok r \<Longrightarrow> registry_ok r'"
  by (auto simp: commit_worker_def complete_worker_def intro!: registry_ok_add split: if_splits)

lemma commit_current_ok: "commit_current st ln = Inr r \<Longrightarrow> registry_ok (ps_out st) \<Longrightarrow> registry_ok r"
  by (auto simp: commit_current_def commit_worker_ok split: option.splits)

lemma set_current_out: "set_current ln w kv st = Inr st' \<Longrightarrow> ps_out st' = ps_out st"
  by (auto simp: set_current_def split: sum.splits)

lemma parse_line_ok: "parse_line ln raw st = Inr st' \<Longrightarrow> registry_ok (ps_out st) \<Longrightarrow> registry_ok (ps_out st')"
  using commit_current_ok [of st ln] unfolding parse_line_def Let_def
  by (auto split: if_splits option.splits elim!: andThen_InrE dest!: set_current_out)

lemma parse_lines_ok: "parse_lines ln ls st = Inr st' \<Longrightarrow> registry_ok (ps_out st) \<Longrightarrow> registry_ok (ps_out st')"
  by (induction ln ls st rule: parse_lines.induct) (auto elim!: andThen_InrE dest: parse_line_ok)

text \<open>
  C35: whatever the file, a registry that \<open>Parse\<close> returns is well formed, and so is the built-in
  one: it has at least one worker, no two with the same name, each with a name, an image and a
  command, and \<open>Lookup\<close> finds a name exactly when \<open>Names\<close> lists it, as the entry of that name.
\<close>

theorem registry_well_formed:
  assumes "parse_registry b = Inr r \<or> r = Default"
  shows "Names r \<noteq> [] \<and> distinct (Names r) \<and>
     (\<forall>n. case Lookup r n of
        Inr w \<Rightarrow> n \<in> set (Names r) \<and> wk_Name w = n \<and> wk_Image w \<noteq> '''' \<and> wk_Command w \<noteq> ''''
      | Inl e \<Rightarrow> n \<notin> set (Names r) \<and> e = ErrUnknownWorker n)"
proof -
  have "registry_ok r \<and> order r \<noteq> []" using assms
  proof
    assume "parse_registry b = Inr r"
    then show ?thesis unfolding parse_registry_def Let_def
      by (elim andThen_InrE) (auto dest!: parse_lines_ok commit_current_ok split: if_splits)
  next
    assume "r = Default"
    then show ?thesis
      by (auto simp: Default_def default_workers_def add_worker_def empty_registry_def registry_ok_def complete_worker_def split: if_splits)
  qed
  then show ?thesis
    by (auto simp: registry_ok_def Names_def Lookup_def complete_worker_def split: option.splits)
qed

theorem registry_well_formed_witness:
  "Names Default \<noteq> [] \<and> distinct (Names Default) \<and>
   (case Lookup Default ''matmul'' of Inr w \<Rightarrow> wk_CheckpointInterval w = 1000 \<and> wk_Image w \<noteq> '''' | Inl e \<Rightarrow> False)"
  using registry_well_formed [of "''''" Default]
  by (simp add: Lookup_def Default_def default_workers_def add_worker_def empty_registry_def)

section \<open>Writing a registry and reading it back\<close>

text \<open>The documented layout of a registry file.\<close>

definition worker_lines :: "Worker \<Rightarrow> string list" where
  "worker_lines w =
     [''  - worker_name: '' @ wk_Name w, ''    image: '' @ wk_Image w, ''    command: '' @ wk_Command w,
      ''    checkpoint_interval: '' @ Itoa (wk_CheckpointInterval w), ''    schema_version: '' @ Itoa (wk_SchemaVersion w)]"

definition registry_file :: "Worker list \<Rightarrow> string" where
  "registry_file ws = Join (''workers:'' # concat (map worker_lines ws)) [CHR 0x0A]"

text \<open>Values without white space, quotes and comment signs.\<close>

definition plain_char :: "char \<Rightarrow> bool" where
  "plain_char c \<longleftrightarrow> 33 \<le> (of_char c :: nat) \<and> (of_char c :: nat) \<le> 126 \<and> c \<notin> {CHR ''#'', CHR 0x22, CHR 0x27}"

definition plain_value :: "string \<Rightarrow> bool" where
  "plain_value v \<longleftrightarrow> v \<noteq> '''' \<and> list_all plain_char v"

lemma trim_words_none: "find (\<lambda>w. w \<noteq> [] \<and> HasPrefix s w) ws = None \<Longrightarrow> trim_words ws s = s"
  by (subst trim_words.simps) simp

lemma ws_runes_not_plain: "list_all (\<lambda>w. \<not> plain_char (hd w)) (ws_runes @ map rev ws_runes)"
  by code_simp

lemma no_ws_prefix:
  assumes "plain_char c" and "set ws \<subseteq> set (ws_runes @ map rev ws_runes)"
  shows "find (\<lambda>w. w \<noteq> [] \<and> HasPrefix (c # s) w) ws = None"
proof -
  have "\<not> (w \<noteq> [] \<and> HasPrefix (c # s) w)" if "w \<in> set ws" for w
  proof
    assume "w \<noteq> [] \<and> HasPrefix (c # s) w"
    then have "hd w = c" by (cases w) (auto simp: HasPrefix_def)
    with that assms ws_runes_not_plain show False unfolding list_all_iff by blast
  qed
  then show ?thesis unfolding find_None_iff by blast
qed

text \<open>Text that neither starts nor ends with white space, and a line made of it.\<close>

definition solid :: "string \<Rightarrow> bool" where
  "solid x \<longleftrightarrow> x \<noteq> '''' \<and> plain_char (hd x) \<and> plain_char (last x)"

lemma plain_value_solid: "plain_value v \<Longrightarrow> solid v"
  by (cases v) (auto simp: plain_value_def solid_def list_all_iff)

lemma TrimSpace_solid:
  assumes "solid x"
  shows "TrimSpace (replicate n (CHR '' '') @ x) = x"
proof -
  obtain c cs where x: "x = c # cs" "plain_char c" using assms by (cases x) (auto simp: solid_def)
  obtain d ds where r: "rev x = d # ds" "plain_char d"
    using assms by (cases x rule: rev_cases) (auto simp: solid_def)
  have 1: "trim_words ws_runes x = x" unfolding x(1) by (rule trim_words_none, rule no_ws_prefix [OF x(2)]) simp
  have 2: "trim_words (map rev ws_runes) (rev x) = rev x"
    unfolding r(1) by (rule trim_words_none, rule no_ws_prefix [OF r(2)]) simp
  have "trim_words ws_runes (replicate n (CHR '' '') @ x) = x"
  proof (induction n)
    case 0
    then show ?case by (simp add: 1)
  next
    case (Suc n)
    have "find (\<lambda>w. w \<noteq> [] \<and> HasPrefix (replicate (Suc n) (CHR '' '') @ x) w) ws_runes = Some [CHR '' '']"
      by (simp add: ws_runes_def HasPrefix_def)
    then show ?case using Suc by (subst trim_words.simps) simp
  qed
  then show ?thesis by (simp add: TrimSpace_def 2)
qed

lemmas TrimSpace_plain = TrimSpace_solid [where n = 0, simplified] TrimSpace_solid [where n = 1, simplified]

lemma Trim_plain:
  assumes "plain_value v"
  shows "Trim v [CHR 0x22, CHR 0x27] = v"
proof -
  let ?P = "\<lambda>c. c \<in> set [CHR 0x22, CHR 0x27]"
  have "dropWhile ?P xs = xs" if "list_all plain_char xs" for xs
    using that by (cases xs) (auto simp: plain_char_def)
  moreover have "list_all plain_char v" "list_all plain_char (rev v)" using assms by (simp_all add: plain_value_def)
  ultimately show ?thesis by (simp add: Trim_def TrimLeft_def TrimRight_def)
qed

definition key_ok :: "string \<Rightarrow> bool" where
  "key_ok k \<longleftrightarrow> plain_value k \<and> CHR '':'' \<notin> set k \<and> hd k \<noteq> CHR ''-''"

definition field :: "string \<Rightarrow> string \<Rightarrow> string" where
  "field k v = k @ '': '' @ v"

lemma field_solid: "key_ok k \<Longrightarrow> plain_value v \<Longrightarrow> solid (field k v)"
  using plain_value_solid [of k] plain_value_solid [of v]
  by (cases k) (auto simp: key_ok_def solid_def field_def)

lemma setField_field:
  assumes "key_ok k" and "plain_value v"
  shows "setField w (field k v) =
     (if k = ''worker_name'' then Inr (w\<lparr>wk_Name := v\<rparr>)
      else if k = ''image'' then Inr (w\<lparr>wk_Image := v\<rparr>)
      else if k = ''command'' then Inr (w\<lparr>wk_Command := v\<rparr>)
      else if k = ''checkpoint_interval'' then
        (case Atoi v of Inl _ \<Rightarrow> Inl k | Inr n \<Rightarrow> Inr (w\<lparr>wk_CheckpointInterval := n\<rparr>))
      else if k = ''schema_version'' then
        (case Atoi v of Inl _ \<Rightarrow> Inl k | Inr n \<Rightarrow> Inr (w\<lparr>wk_SchemaVersion := n\<rparr>))
      else Inr w)"
proof -
  have tw: "takeWhile (\<lambda>d. d \<noteq> CHR '':'') (field k v) = k"
    using assms(1) unfolding field_def key_ok_def by (induction k) (auto simp: takeWhile_append)
  have "Index (field k v) '':'' = Some (length k)"
    unfolding Index_single tw by (simp add: field_def)
  moreover have "TrimSpace k = k" using assms(1) by (simp add: key_ok_def plain_value_solid TrimSpace_plain(1))
  moreover have "TrimSpace (CHR '' '' # v) = v" using assms(2) by (simp add: plain_value_solid TrimSpace_plain(2))
  moreover have "take (length k) (field k v) = k" "drop (length k + 1) (field k v) = CHR '' '' # v" by (simp_all add: field_def)
  ultimately show ?thesis using Trim_plain [OF assms(2)] unfolding setField_def by (simp add: Let_def)
qed

lemma line_trimmed:
  assumes "key_ok k" and "plain_value v" and "set pre \<subseteq> {CHR '' '', CHR ''-''}"
  shows "strip_comment (pre @ field k v) = pre @ field k v"
    and "TrimRight (pre @ field k v) [CHR '' '', CHR 0x09] = pre @ field k v"
proof -
  have "CHR ''#'' \<notin> set (pre @ field k v)"
    using assms by (auto simp: key_ok_def field_def plain_value_def list_all_iff plain_char_def)
  then show "strip_comment (pre @ field k v) = pre @ field k v"
    unfolding strip_comment_def Index_single by simp
  obtain xs d where v: "v = xs @ [d]" "plain_char d"
    using assms(2) by (cases v rule: rev_cases) (auto simp: plain_value_def)
  then show "TrimRight (pre @ field k v) [CHR '' '', CHR 0x09] = pre @ field k v"
    by (auto simp: TrimRight_def field_def plain_char_def)
qed

lemma field_line:
  assumes "key_ok k" and "plain_value v" and "seenWorkers st" and "current st = Some w"
  shows "parse_line ln (''    '' @ field k v) st = set_current ln w (field k v) st"
proof -
  note so = field_solid [OF assms(1,2)]
  have sp: "''    '' = replicate 4 (CHR '' '')" by (simp add: eval_nat_numeral)
  have "solid (field k v) \<Longrightarrow> TrimLeft (''    '' @ field k v) [CHR '' '', CHR 0x09] = field k v"
    by (cases "field k v") (auto simp: TrimLeft_def solid_def plain_char_def)
  moreover have "\<not> HasPrefix (field k v) ''- ''"
    using assms(1) by (cases k) (auto simp: HasPrefix_def field_def key_ok_def plain_value_def)
  moreover have "TrimSpace (''    '' @ field k v) \<noteq> ''''" using TrimSpace_solid [OF so, of 4] so by (simp add: sp solid_def)
  moreover have "HasPrefix (''    '' @ field k v) '' ''" by (simp add: HasPrefix_def)
  ultimately show ?thesis
    using line_trimmed [OF assms(1,2), of "''    ''"] so assms(3,4) unfolding parse_line_def by (simp add: Let_def)
qed

lemma item_line:
  assumes "key_ok k" and "plain_value v" and "seenWorkers st"
  shows "parse_line ln (''  - '' @ field k v) st =
     andThen (commit_current st ln) (\<lambda>out. set_current ln zero_worker (field k v) (st\<lparr>ps_out := out, current := Some zero_worker\<rparr>))"
proof -
  note so = field_solid [OF assms(1,2)]
  have "last (field k v) = last v" "v \<noteq> []" using assms(2) by (simp_all add: field_def plain_value_def)
  then have "solid (''- '' @ field k v)" using so by (auto simp: solid_def plain_char_def field_def)
  from TrimSpace_solid [OF this, of 2]
  have "TrimSpace (''  - '' @ field k v) \<noteq> ''''" by (simp add: eval_nat_numeral)
  moreover have "TrimLeft (''  - '' @ field k v) [CHR '' '', CHR 0x09] = ''- '' @ field k v" by (simp add: TrimLeft_def)
  moreover have "HasPrefix (''  - '' @ field k v) '' ''" "HasPrefix (''- '' @ field k v) ''- ''" by (simp_all add: HasPrefix_def)
  moreover have "TrimSpace (field k v) = field k v" "field k v \<noteq> ''''"
    using TrimSpace_plain(1) [OF so] so by (simp_all add: solid_def)
  ultimately show ?thesis
    using line_trimmed [OF assms(1,2), of "''  - ''"] assms(3) unfolding parse_line_def by (simp add: Let_def)
qed

definition printable_worker :: "Worker \<Rightarrow> bool" where
  "printable_worker w \<longleftrightarrow> plain_value (wk_Name w) \<and> plain_value (wk_Image w) \<and> plain_value (wk_Command w) \<and>
     int64_range (wk_CheckpointInterval w) \<and> int64_range (wk_SchemaVersion w)"

lemma plain_Itoa: "plain_value (Itoa z)"
proof -
  have "plain_char c" if "is_digit c" for c using that by (auto simp: is_digit_def plain_char_def)
  then have "list_all plain_char (nat_digits n)" for n using nat_digits_digits [of n] by (auto simp: list_all_iff)
  then show ?thesis by (simp add: plain_value_def Itoa_def plain_char_def)
qed

lemma key_oks: "key_ok ''worker_name''" "key_ok ''image''" "key_ok ''command''" "key_ok ''checkpoint_interval''" "key_ok ''schema_version''"
  by (simp_all add: key_ok_def plain_value_def plain_char_def)

lemma worker_lines_fields:
  "worker_lines w = [''  - '' @ field ''worker_name'' (wk_Name w), ''    '' @ field ''image'' (wk_Image w),
     ''    '' @ field ''command'' (wk_Command w), ''    '' @ field ''checkpoint_interval'' (Itoa (wk_CheckpointInterval w)),
     ''    '' @ field ''schema_version'' (Itoa (wk_SchemaVersion w))]"
  by (simp add: worker_lines_def field_def)

lemma parse_worker_lines:
  assumes "printable_worker w" and "seenWorkers st" and "commit_current st ln = Inr out"
  shows "parse_lines ln (worker_lines w @ rest) st = parse_lines (ln + 5) rest (st\<lparr>ps_out := out, current := Some w\<rparr>)"
proof -
  have pv: "plain_value (wk_Name w)" "plain_value (wk_Image w)" "plain_value (wk_Command w)"
    "Atoi (Itoa (wk_CheckpointInterval w)) = Inr (wk_CheckpointInterval w)" "Atoi (Itoa (wk_SchemaVersion w)) = Inr (wk_SchemaVersion w)"
    using assms(1) by (simp_all add: printable_worker_def)
  have zw: "zero_worker\<lparr>wk_Name := wk_Name w, wk_Image := wk_Image w, wk_Command := wk_Command w,
     wk_CheckpointInterval := wk_CheckpointInterval w, wk_SchemaVersion := wk_SchemaVersion w\<rparr> = w"
    by (simp add: zero_worker_def)
  have five: "Suc (Suc (Suc (Suc (Suc ln)))) = ln + 5" by simp
  show ?thesis
    using assms(2,3) pv
    by (simp add: five zw worker_lines_fields item_line [simplified] field_line [simplified] key_oks plain_Itoa set_current_def setField_field)
qed

lemma Split_append: "sep \<notin> set a \<Longrightarrow> Split (a @ sep # b) sep = a # Split b sep"
  by (induction a) auto

lemma Split_none: "sep \<notin> set a \<Longrightarrow> Split a sep = [a]"
  by (induction a) auto

lemma Split_Join: "ls \<noteq> [] \<Longrightarrow> \<forall>l \<in> set ls. sep \<notin> set l \<Longrightarrow> Split (Join ls [sep]) sep = ls"
proof (induction ls rule: induct_list012)
  case (3 x y zs)
  then show ?case by (simp add: Split_append)
qed (simp_all add: Split_none)

lemma plain_no_newline: "list_all plain_char v \<Longrightarrow> CHR 0x0A \<notin> set v"
proof
  assume "list_all plain_char v" and "CHR 0x0A \<in> set v"
  then have "plain_char (CHR 0x0A)" by (simp add: list_all_iff)
  then show False by (simp add: plain_char_def)
qed

lemma field_no_newline: "key_ok k \<Longrightarrow> plain_value v \<Longrightarrow> CHR 0x0A \<notin> set (field k v)"
  using plain_no_newline [of k] plain_no_newline [of v] by (simp add: key_ok_def field_def plain_value_def)

lemma worker_lines_no_newline: "printable_worker w \<Longrightarrow> l \<in> set (worker_lines w) \<Longrightarrow> CHR 0x0A \<notin> set l"
  unfolding worker_lines_fields printable_worker_def
  using field_no_newline key_oks plain_Itoa by (elim conjE) (simp, elim disjE, simp_all)

lemma parse_workers:
  assumes "\<forall>w \<in> set ws. printable_worker w" and "seenWorkers st" and "\<And>ln. commit_current st ln = Inr r"
    and "distinct (map wk_Name ws)" and "\<forall>w \<in> set ws. byName r (wk_Name w) = None"
  shows "\<exists>st'. parse_lines ln (concat (map worker_lines ws)) st = Inr st' \<and>
     (\<forall>ln. commit_current st' ln = Inr (foldl add_worker r ws))"
  using assms
proof (induction ws arbitrary: st r ln)
  case Nil
  then show ?case by simp
next
  case (Cons w ws)
  let ?st = "st\<lparr>ps_out := r, current := Some w\<rparr>"
  have w: "printable_worker w" "byName r (wk_Name w) = None" using Cons.prems by simp_all
  then have c: "commit_current ?st n = Inr (add_worker r w)" for n
    by (simp add: commit_current_def commit_worker_def printable_worker_def plain_value_def)
  have "\<forall>x \<in> set ws. byName (add_worker r w) (wk_Name x) = None"
    using Cons.prems(4,5) by (auto simp: add_worker_def image_iff)
  with Cons.IH [of ?st "add_worker r w" "ln + 5"] Cons.prems(1,2,4) c
  obtain st' where st': "parse_lines (ln + 5) (concat (map worker_lines ws)) ?st = Inr st'"
    "\<forall>n. commit_current st' n = Inr (foldl add_worker (add_worker r w) ws)" by auto
  have "parse_lines ln (concat (map worker_lines (w # ws))) st = parse_lines (ln + 5) (concat (map worker_lines ws)) ?st"
    using parse_worker_lines [OF w(1) Cons.prems(2) Cons.prems(3)] by simp
  with st' show ?case by simp
qed

lemma order_foldl_add: "order (foldl add_worker r ws) = order r @ map wk_Name ws"
  by (induction ws arbitrary: r) (simp_all add: add_worker_def)

text \<open>
  C36: a registry written in the documented layout is read back: for workers with distinct
  names whose values have no white space, quotes or comment signs, \<open>Parse\<close> returns the
  registry of exactly these workers, in their order.
\<close>

theorem registry_read_back:
  assumes "\<forall>w \<in> set ws. printable_worker w" and "distinct (map wk_Name ws)" and "ws \<noteq> []"
  shows "parse_registry (registry_file ws) = Inr (foldl add_worker empty_registry ws)"
proof -
  let ?ls = "''workers:'' # concat (map worker_lines ws)"
  let ?init = "\<lparr>ps_out = empty_registry, seenWorkers = False, current = None\<rparr>"
  let ?st = "?init\<lparr>seenWorkers := True\<rparr>"
  have nl: "\<forall>l \<in> set ?ls. CHR 0x0A \<notin> set l" using assms(1) worker_lines_no_newline by fastforce
  have split: "Split (registry_file ws) (CHR 0x0A) = ?ls"
    unfolding registry_file_def using nl by (intro Split_Join) simp_all
  have "TrimSpace ''workers:'' = ''workers:''" by code_simp
  then have head: "parse_line 0 ''workers:'' ?init = Inr ?st"
    by (simp add: parse_line_def strip_comment_def HasPrefix_def TrimRight_def Let_def)
  obtain st' where "parse_lines 1 (concat (map worker_lines ws)) ?st = Inr st'"
    "\<forall>n. commit_current st' n = Inr (foldl add_worker empty_registry ws)"
    using parse_workers [OF assms(1) _ _ assms(2), of ?st empty_registry 1]
    by (auto simp: commit_current_def empty_registry_def)
  moreover have "order (foldl add_worker empty_registry ws) \<noteq> []"
    using assms(3) by (simp add: order_foldl_add)
  ultimately show ?thesis unfolding parse_registry_def split by (simp add: Let_def head)
qed

theorem registry_read_back_witness:
  "parse_registry (registry_file default_workers) = Inr Default"
  using registry_read_back [of default_workers]
  by (simp add: Default_def default_workers_def printable_worker_def plain_value_def plain_char_def int64_range_def)

end
