(* ===== verification/Api.thy ===== *)
theory Api
  imports Recovery Registry
begin

text \<open>
  Model of \<open>internal/api\<close>: the requests, the routing, every handler with its status codes, and
  the goroutine that starts a created job. A response carries the values the code passes to
  \<open>writeJSON\<close>; their rendering as text (times in particular) is not modelled. The server shares
  the store, the Docker client and the configuration with the supervisor, whose state it works
  on; its registry is an argument.
\<close>

section \<open>Requests and responses\<close>

record request =
  rq_Method :: string
  rq_Path :: string
  rq_Query :: "string \<rightharpoonup> string"
  rq_Header :: "string \<rightharpoonup> string"
  rq_Body :: string

text \<open>A message is a fixed text or the text of an error.\<close>

datatype message = Msg string | ErrMsg sup_error | LookupMsg registry_error

record errorEnvelope =
  ee_Code :: string
  ee_Message :: message
  ee_Retryable :: bool
  ee_RequestID :: string

record createJobRequest =
  cr_WorkerName :: string
  cr_Image :: string
  cr_Command :: string
  cr_Args :: "string list"
  cr_CheckpointEvery :: int
  cr_Limit :: int
  cr_Seed :: int
  cr_SleepPerCheckpointMs :: int

record jobView =
  jv_ID :: string
  jv_Image :: string
  jv_State :: string
  jv_CreatedAt :: nanos
  jv_StartedAt :: "nanos option"
  jv_FinishedAt :: "nanos option"
  jv_ExitCode :: "int option"
  jv_LastCheckpointAt :: "nanos option"
  jv_LastCheckpointEpoch :: "int option"
  jv_LastCheckpointFound :: "int option"
  jv_ContainerID :: "string option"
  jv_StateVolumePath :: "string option"

record eventView =
  vw_ID :: int
  vw_EventType :: string
  vw_Payload :: string
  vw_RecordedAt :: nanos

record health =
  h_SQLite :: bool
  h_Docker :: bool
  h_LastWAL :: nanos
  h_ControllerPID :: int

datatype body =
  BodyError errorEnvelope
| BodyAccepted string State
| BodyJobs "jobView list" string
| BodyDetail jobView "eventView list"
| BodyHealth health
| BodyText string

record response =
  rs_Status :: nat
  rs_Body :: body

type_synonym 'd handler = "('d, response) sup_op"

definition writeError :: "string \<Rightarrow> nat \<Rightarrow> string \<Rightarrow> message \<Rightarrow> bool \<Rightarrow> response" where
  "writeError rid status code msg retryable =
     \<lparr>rs_Status = status, rs_Body = BodyError \<lparr>ee_Code = code, ee_Message = msg, ee_Retryable = retryable, ee_RequestID = rid\<rparr>\<rparr>"

definition toView :: "Job \<Rightarrow> jobView" where
  "toView j =
     \<lparr>jv_ID = job_ID j, jv_Image = job_Image j, jv_State = job_State j, jv_CreatedAt = job_CreatedAt j,
      jv_StartedAt = job_StartedAt j, jv_FinishedAt = job_FinishedAt j, jv_ExitCode = job_ExitCode j,
      jv_LastCheckpointAt = job_LastCheckpointAt j, jv_LastCheckpointEpoch = job_LastCheckpointEpoch j,
      jv_LastCheckpointFound = job_LastCheckpointFound j, jv_ContainerID = job_ContainerID j,
      jv_StateVolumePath = job_StateVolumePath j\<rparr>"

definition eventView_of :: "Event \<Rightarrow> eventView" where
  "eventView_of e = \<lparr>vw_ID = event_ID e, vw_EventType = event_EventType e, vw_Payload = event_Payload e, vw_RecordedAt = event_RecordedAt e\<rparr>"

section \<open>Creating a job\<close>

definition zero_request :: createJobRequest where
  "zero_request = \<lparr>cr_WorkerName = '''', cr_Image = '''', cr_Command = '''', cr_Args = [], cr_CheckpointEvery = 0,
     cr_Limit = 0, cr_Seed = 0, cr_SleepPerCheckpointMs = 0\<rparr>"

definition request_fields :: "(string \<times> json) list \<Rightarrow> createJobRequest option" where
  "request_fields kvs =
     (case into_field into_string '''' (field_vals ''worker_name'' kvs) of None \<Rightarrow> None | Some name \<Rightarrow>
     (case into_field into_string '''' (field_vals ''image'' kvs) of None \<Rightarrow> None | Some img \<Rightarrow>
     (case into_field into_string '''' (field_vals ''command'' kvs) of None \<Rightarrow> None | Some command \<Rightarrow>
     (case into_field into_string_slice [] (field_vals ''args'' kvs) of None \<Rightarrow> None | Some args \<Rightarrow>
     (case into_field into_int64 0 (field_vals ''checkpoint_every'' kvs) of None \<Rightarrow> None | Some every \<Rightarrow>
     (case into_field into_int64 0 (field_vals ''limit'' kvs) of None \<Rightarrow> None | Some limit \<Rightarrow>
     (case into_field into_int64 0 (field_vals ''seed'' kvs) of None \<Rightarrow> None | Some seed \<Rightarrow>
     (case into_field into_int64 0 (field_vals ''sleep_per_checkpoint_ms'' kvs) of None \<Rightarrow> None | Some sleep \<Rightarrow>
       Some \<lparr>cr_WorkerName = name, cr_Image = img, cr_Command = command, cr_Args = args, cr_CheckpointEvery = every,
         cr_Limit = limit, cr_Seed = seed, cr_SleepPerCheckpointMs = sleep\<rparr>))))))))"

text \<open>
  \<open>json.NewDecoder(r.Body).Decode\<close> reads the first value of the body and leaves what follows it;
  an empty body is an error, \<open>null\<close> leaves the request as it is. The server has not closed the
  body by then, so \<open>ErrBodyReadAfterClose\<close> does not occur.
\<close>

definition decode_request :: "string \<Rightarrow> createJobRequest option" where
  "decode_request b =
     (case parse_value (2 * length b + 1) b of
        Some (JObj kvs, _) \<Rightarrow> request_fields kvs
      | Some (JNull, _) \<Rightarrow> Some zero_request
      | _ \<Rightarrow> None)"

definition resolve_worker :: "createJobRequest \<Rightarrow> string" where
  "resolve_worker req = (if cr_WorkerName req = '''' then ''primes'' else cr_WorkerName req)"

definition resolve_image :: "controller_config \<Rightarrow> createJobRequest \<Rightarrow> Worker \<Rightarrow> string" where
  "resolve_image c req worker =
     (if cr_Image req = '''' then
        (if cc_DefaultImageOverridden c then cc_DefaultImage c
         else if wk_Image worker \<noteq> '''' then wk_Image worker
         else cc_DefaultImage c)
      else cr_Image req)"

definition request_args :: "createJobRequest \<Rightarrow> string \<Rightarrow> Worker \<Rightarrow> string list" where
  "request_args req workerName worker =
     (let checkpointEvery = (if cr_CheckpointEvery req = 0 then wk_CheckpointInterval worker else cr_CheckpointEvery req)
      in [''--worker'', workerName] @ cr_Args req @
         (if cr_Limit req > 0 then [''--limit'', Itoa (cr_Limit req)] else []) @
         (if checkpointEvery > 0 then [''--checkpoint-every'', Itoa checkpointEvery] else []) @
         (if cr_Seed req > 0 then [''--seed'', Itoa (cr_Seed req)] else []) @
         (if cr_SleepPerCheckpointMs req > 0
          then [''--sleep-per-checkpoint-ms'', Itoa (cr_SleepPerCheckpointMs req)] else []))"

definition resolve_command :: "createJobRequest \<Rightarrow> Worker \<Rightarrow> string" where
  "resolve_command req worker =
     (if cr_Command req = '''' then
        (if wk_Command worker = '''' then ''/usr/local/bin/jobworker'' else wk_Command worker)
      else cr_Command req)"

definition new_job :: "controller_config \<Rightarrow> createJobRequest \<Rightarrow> Worker \<Rightarrow> string \<Rightarrow> Job" where
  "new_job c req worker i =
     \<lparr>job_ID = i, job_Image = resolve_image c req worker, job_Command = resolve_command req worker,
      job_Args = request_args req (resolve_worker req) worker, job_State = '''', job_CreatedAt = zero_time,
      job_StartedAt = None, job_FinishedAt = None, job_ExitCode = None, job_LastCheckpointAt = None,
      job_LastCheckpointPath = None, job_LastCheckpointEpoch = None, job_LastCheckpointFound = None,
      job_ContainerID = None, job_ControllerPID = None, job_StateVolumePath = None, job_AssignedControllerID = None\<rparr>"

text \<open>
  \<open>createJob\<close>; \<open>uuid\<close> is the id \<open>uuid.NewString\<close> returns. Where it answers \<open>202\<close> it has also
  launched the goroutine \<open>start_created\<close> for that id, which runs by itself.
\<close>

definition createJob :: "Registry \<Rightarrow> string \<Rightarrow> string \<Rightarrow> string \<Rightarrow> 'd handler" where
  "createJob reg uuid rid b =
     (case decode_request b of
        None \<Rightarrow> ret (writeError rid 400 ''bad_request'' (Msg ''invalid JSON body'') False)
      | Some req \<Rightarrow>
          (case Lookup reg (resolve_worker req) of
             Inl e \<Rightarrow> ret (writeError rid 400 ''unknown_worker'' (LookupMsg e) False)
           | Inr worker \<Rightarrow> with_state (\<lambda>s.
               handle (on_store (CreateJob (new_job (sup_cfg s) req worker uuid)))
                 (\<lambda>e. ret (writeError rid 500 ''db_error'' (ErrMsg e) True))
                 (\<lambda>_. ret \<lparr>rs_Status = 202, rs_Body = BodyAccepted uuid StatePending\<rparr>))))"

definition start_created :: "'d cli \<Rightarrow> (string \<Rightarrow> string option) \<Rightarrow> string \<Rightarrow> ('d, unit) sup_op" where
  "start_created cli mkdirAll i =
     handle (Start cli mkdirAll i)
       (\<lambda>e. if e = ErrNotLeader then ret ()
            else dropped (on_store (Transition i StateFailed [assigns [(''exit_code'', Integer (- 1))]])))
       (\<lambda>_. ret ())"

section \<open>The other handlers\<close>

definition handleHealthz :: "'d cli \<Rightarrow> 'd handler" where
  "handleHealthz cli = with_state (\<lambda>s.
     bnd (handle (on_store Ping) (\<lambda>_. ret False) (\<lambda>_. ret True)) (\<lambda>sqlite.
     bnd (if sup_docker s then handle (on_docker (docker_Ping cli)) (\<lambda>_. ret False) (\<lambda>_. ret True) else ret False) (\<lambda>dk.
     bnd (handle (on_store LastWALCheckpoint) (\<lambda>_. ret zero_time) ret) (\<lambda>wal.
     ret \<lparr>rs_Status = (if sqlite then 200 else 503),
          rs_Body = BodyHealth \<lparr>h_SQLite = sqlite, h_Docker = dk, h_LastWAL = wal, h_ControllerPID = sup_pid s\<rparr>\<rparr>))))"

text \<open>\<open>q.Get\<close>: the empty string where the parameter is missing.\<close>

definition query_get :: "(string \<rightharpoonup> string) \<Rightarrow> string \<Rightarrow> string" where
  "query_get q k = (case q k of None \<Rightarrow> '''' | Some v \<Rightarrow> v)"

definition listJobs :: "string \<Rightarrow> (string \<rightharpoonup> string) \<Rightarrow> 'd handler" where
  "listJobs rid q =
     handle (on_store (ListJobs (query_get q ''state'') (query_get q ''cursor'') (atoi_value (Atoi (query_get q ''limit'')))))
       (\<lambda>e. ret (writeError rid 500 ''db_error'' (ErrMsg e) True))
       (\<lambda>(js, nxt). ret \<lparr>rs_Status = 200, rs_Body = BodyJobs (map toView js) nxt\<rparr>)"

definition handleJobs :: "Registry \<Rightarrow> string \<Rightarrow> string \<Rightarrow> request \<Rightarrow> 'd handler" where
  "handleJobs reg uuid rid r =
     (if rq_Method r = ''POST'' then createJob reg uuid rid (rq_Body r)
      else if rq_Method r = ''GET'' then listJobs rid (rq_Query r)
      else ret (writeError rid 405 ''method_not_allowed'' (Msg ''use GET or POST'') False))"

definition getJob :: "string \<Rightarrow> string \<Rightarrow> string \<Rightarrow> 'd handler" where
  "getJob rid meth i =
     (if meth \<noteq> ''GET'' then ret (writeError rid 405 ''method_not_allowed'' (Msg ''use GET'') False)
      else handle (on_store (GetJob i))
        (\<lambda>e. ret (if e = StoreError ErrNotFound then writeError rid 404 ''not_found'' (Msg ''no such job'') False
                  else writeError rid 500 ''db_error'' (ErrMsg e) True))
        (\<lambda>j. handle (on_store (RecentEvents i 25))
          (\<lambda>e. ret (writeError rid 500 ''db_error'' (ErrMsg e) True))
          (\<lambda>events. ret \<lparr>rs_Status = 200, rs_Body = BodyDetail (toView j) (map eventView_of events)\<rparr>)))"

definition cancelJob :: "'d cli \<Rightarrow> string \<Rightarrow> string \<Rightarrow> 'd handler" where
  "cancelJob cli rid i =
     handle (Cancel cli i)
       (\<lambda>e. ret (if e = StoreError ErrNotFound then writeError rid 404 ''not_found'' (Msg ''no such job'') False
                 else writeError rid 500 ''cancel_failed'' (ErrMsg e) True))
       (\<lambda>_. ret \<lparr>rs_Status = 202, rs_Body = BodyAccepted i StateCancelled\<rparr>)"

definition handleJobByID :: "'d cli \<Rightarrow> string \<Rightarrow> request \<Rightarrow> 'd handler" where
  "handleJobByID cli rid r =
     (let parts = Split (TrimPrefix (rq_Path r) ''/v1/jobs/'') (CHR ''/''); i = parts ! 0 in
      if i = '''' then ret (writeError rid 400 ''bad_request'' (Msg ''missing job id'') False)
      else if length parts = 1 then getJob rid (rq_Method r) i
      else if length parts = 2 \<and> parts ! 1 = ''cancel'' \<and> rq_Method r = ''POST'' then cancelJob cli rid i
      else ret (writeError rid 404 ''not_found'' (Msg ''no such route'') False))"

section \<open>Routing\<close>

text \<open>
  \<open>http.ServeMux\<close> with the three patterns of \<open>Handler\<close>: a path that is not clean is redirected to
  its clean form (a trailing slash is kept), a pattern that ends in a slash matches its subtree.
\<close>

definition cleanPath :: "string \<Rightarrow> string" where
  "cleanPath p =
     (let q = (if p = '''' then ''/'' else if HasPrefix p ''/'' then p else ''/'' @ p);
          np = Clean q
      in if last q = CHR ''/'' \<and> np \<noteq> ''/'' then np @ ''/'' else np)"

definition route :: "'d cli \<Rightarrow> Registry \<Rightarrow> string \<Rightarrow> string \<Rightarrow> request \<Rightarrow> 'd handler" where
  "route cli reg uuid rid r =
     (if rq_Method r \<noteq> ''CONNECT'' \<and> cleanPath (rq_Path r) \<noteq> rq_Path r
      then ret \<lparr>rs_Status = 301, rs_Body = BodyText (cleanPath (rq_Path r))\<rparr>
      else if rq_Path r = ''/healthz'' then handleHealthz cli
      else if rq_Path r = ''/v1/jobs'' then handleJobs reg uuid rid r
      else if HasPrefix (rq_Path r) ''/v1/jobs/'' then handleJobByID cli rid r
      else ret \<lparr>rs_Status = 404, rs_Body = BodyText ''404 page not found''\<rparr>)"

text \<open>
  \<open>requestIDMiddleware\<close>: the id of the request's header, or the one drawn at random; it is
  returned with the response.
\<close>

definition request_id :: "string \<Rightarrow> request \<Rightarrow> string" where
  "request_id random r =
     (let rid = query_get (rq_Header r) ''X-Request-ID'' in if rid = '''' then random else rid)"

definition serve_request :: "'d cli \<Rightarrow> Registry \<Rightarrow> string \<Rightarrow> string \<Rightarrow> request \<Rightarrow> ('d, string \<times> response) sup_op" where
  "serve_request cli reg uuid random r =
     (let rid = request_id random r in bnd (route cli reg uuid rid r) (\<lambda>resp. ret (rid, resp)))"

section \<open>What the handlers keep\<close>

text \<open>A store operation that only reads.\<close>

lemma reads_driver_call: "keeps (\<lambda>s. P (db s)) driver_call"
  by (simp add: keeps_def driver_call_def split: option.splits)

lemma reads_get_db: "keeps (\<lambda>s. P (db s)) get_db"
  by (simp add: keeps_def get_db_def)

lemma keeps_run_at: "(\<And>t. keeps P (f t)) \<Longrightarrow> keeps P (\<lambda>s. f s s)"
  by (simp add: keeps_def)

lemma reads_GetJob: "keeps (\<lambda>s. P (db s)) (GetJob i)"
  unfolding GetJob_def by (intro keeps_intros reads_driver_call reads_get_db)

lemma reads_RecentEvents: "keeps (\<lambda>s. P (db s)) (RecentEvents i n)"
  unfolding RecentEvents_def by (intro keeps_intros reads_driver_call reads_get_db)

lemma reads_Ping: "keeps (\<lambda>s. P (db s)) Ping"
  unfolding Ping_def by (rule reads_driver_call)

lemma reads_LastWALCheckpoint: "keeps (\<lambda>s. P (db s)) LastWALCheckpoint"
  unfolding LastWALCheckpoint_def by (intro keeps_intros reads_driver_call reads_get_db)

lemma reads_ListJobs: "keeps (\<lambda>s. P (db s)) (ListJobs st cur lim)"
  unfolding ListJobs_def Let_def by (rule keeps_bnd, rule reads_driver_call, rule keeps_run_at, intro keeps_intros)

lemma reads_JobsInStates: "keeps (\<lambda>s. P (db s)) (JobsInStates sts)"
  unfolding JobsInStates_def
  by (rule keeps_if, rule keeps_ret, rule keeps_bnd, rule reads_driver_call, rule keeps_run_at, rule keeps_lift_result)

lemma keeps_handleHealthz: "keeps (\<lambda>s. P (tables s)) (handleHealthz cli)"
  unfolding handleHealthz_def by (intro keeps_sup keeps_on_store reads_Ping reads_LastWALCheckpoint)

lemma keeps_listJobs: "keeps (\<lambda>s. P (tables s)) (listJobs rid q)"
  unfolding listJobs_def case_prod_beta by (intro keeps_sup keeps_on_store reads_ListJobs)

lemma keeps_getJob: "keeps (\<lambda>s. P (tables s)) (getJob rid meth i)"
  unfolding getJob_def by (intro keeps_sup keeps_on_store reads_GetJob reads_RecentEvents)

lemmas keeps_read_handlers = keeps_handleHealthz keeps_listJobs keeps_getJob

lemma fresh_new_job: "fresh_job (new_job c req worker i)"
  by (simp add: fresh_job_def new_job_def)

context store_inv
begin

lemma keeps_createJob: "keeps (\<lambda>s. P (tables s)) (createJob reg uuid rid b)"
  unfolding createJob_def
  by (cases "decode_request b"; cases "Lookup reg (resolve_worker (the (decode_request b)))")
    (auto intro!: keeps_sup keeps_on_store keeps_CreateJob fresh_new_job)

lemma keeps_start_created: "keeps (\<lambda>s. P (tables s)) (start_created cli mkdirAll i)"
  unfolding start_created_def by (intro keeps_sup keeps_Start keeps_on_Transition) (simp add: setter_columns_def)

lemma keeps_cancelJob: "keeps (\<lambda>s. P (tables s)) (cancelJob cli rid i)"
  unfolding cancelJob_def by (intro keeps_sup keeps_Cancel)

lemma keeps_serve_request: "keeps (\<lambda>s. P (tables s)) (serve_request cli reg uuid random r)"
  unfolding serve_request_def route_def handleJobs_def handleJobByID_def Let_def
  by (intro keeps_sup keeps_read_handlers keeps_createJob keeps_cancelJob)

lemma keeps_recover_job: "keeps (\<lambda>s. P (tables s)) (recover_job cli mkdirAll auto live pid j res)"
  unfolding recover_job_def resume_def AdoptRunning_def Let_def
  by (intro keeps_sup keeps_track keeps_plain_Transition keeps_Start)

lemma keeps_recover_jobs: "keeps (\<lambda>s. P (tables s)) (recover_jobs cli mkdirAll auto live pid js res)"
  by (induction js arbitrary: res) (auto intro!: keeps_sup keeps_recover_job)

lemma keeps_recovery_Run: "keeps (\<lambda>s. P (tables s)) (recovery_Run cli mkdirAll auto)"
  unfolding recovery_Run_def by (intro keeps_sup keeps_on_store reads_JobsInStates keeps_recover_jobs)

end

text \<open>
  C33: only \<open>POST\<close> requests change the job log. A request with any other method, whatever its path
  and body, leaves every table as it is.
\<close>

theorem other_methods_only_read:
  assumes "rq_Method r \<noteq> ''POST''"
  shows "tables (snd (serve_request cli reg uuid random r s)) = tables s"
proof -
  have "keeps (\<lambda>s'. tables s' = tables s) (handleJobs reg uuid rid r)" for rid
    unfolding handleJobs_def if_not_P [OF assms] by (intro keeps_sup keeps_listJobs)
  moreover have "keeps (\<lambda>s'. tables s' = tables s) (handleJobByID cli rid r)" for rid
    using assms unfolding handleJobByID_def Let_def by (simp only: simp_thms if_False) (intro keeps_sup keeps_getJob)
  ultimately have "keeps (\<lambda>s'. tables s' = tables s) (serve_request cli reg uuid random r)"
    unfolding serve_request_def route_def Let_def by (intro keeps_sup keeps_handleHealthz)
  from keepsD [OF this] show ?thesis by simp
qed

definition demo_request :: "string \<Rightarrow> string \<Rightarrow> string \<Rightarrow> request" where
  "demo_request meth p b = \<lparr>rq_Method = meth, rq_Path = p, rq_Query = Map.empty, rq_Header = Map.empty, rq_Body = b\<rparr>"

theorem other_methods_only_read_witness:
  "tables (snd (serve_request (demo_cli '''') Default ''u'' ''r'' (demo_request ''DELETE'' ''/v1/jobs/a'' '''') demo_running)) =
   tables demo_running"
  by (rule other_methods_only_read) (simp add: demo_request_def)

section \<open>Creating a job\<close>

lemma new_job_simps [simp]:
  "job_ID (new_job c req w i) = i" "initial_state (new_job c req w i) = StatePending"
  "job_Args (new_job c req w i) = request_args req (resolve_worker req) w"
  "job_Image (new_job c req w i) = resolve_image c req w" "job_CreatedAt (new_job c req w i) = zero_time"
  by (simp_all add: new_job_def initial_state_def)

lemma CreateJob_others:
  assumes "CreateJob j s = (Inr x, s')" and "i \<noteq> job_ID j"
  shows "find_job i (db s') = find_job i (db s)"
  using assms(1)
  by (rule CreateJob_Inr) (use assms(2) in \<open>simp add: find_job_def find_append add_event_def split: option.splits\<close>)

text \<open>
  C30: a create request is answered in one of three ways, and the answer tells what happened to
  the job log. \<open>202\<close>: the id was unknown and is now a pending job, every other job is as it
  was. \<open>400\<close> or \<open>500\<close>: nothing was stored. No container is launched before the answer.
\<close>

theorem createJob_outcome:
  "case createJob reg uuid rid b s of (out, s') \<Rightarrow>
     (\<exists>resp. out = Inr resp \<and> rs_Status resp \<in> {202, 400, 500} \<and>
       (if rs_Status resp = 202
        then rs_Body resp = BodyAccepted uuid StatePending \<and> find_job uuid (tables s) = None \<and>
          state_of (tables s') uuid = Some StatePending \<and> (\<forall>i. i = uuid \<or> find_job i (tables s') = find_job i (tables s))
        else tables s' = tables s)) \<and>
     engine s' = engine s \<and> trackers s' = trackers s"
proof (cases "decode_request b")
  case None
  then show ?thesis by (simp add: createJob_def writeError_def)
next
  case (Some req)
  show ?thesis
  proof (cases "Lookup reg (resolve_worker req)")
    case (Inl e)
    with Some show ?thesis by (simp add: createJob_def writeError_def)
  next
    case (Inr w)
    let ?j = "new_job (sup_cfg s) req w uuid"
    obtain r t where c: "CreateJob ?j (sup_st s) = (r, t)" by fastforce
    show ?thesis
    proof (cases r)
      case (Inl e)
      with c Some Inr CreateJob_Inl_db [of ?j "sup_st s" e t] show ?thesis
        by (simp add: createJob_def writeError_def handle_def on_store_def with_state_def)
    next
      case Ok: (Inr u)
      have "find_job uuid (tables s) = None" using c [unfolded Ok] by (rule CreateJob_Inr) simp
      moreover have "state_of (db t) uuid = Some StatePending"
        using CreateJob_state_of [of ?j "sup_st s" uuid] c Ok by simp
      moreover have "\<forall>i. i = uuid \<or> find_job i (db t) = find_job i (tables s)"
        using CreateJob_others [OF c [unfolded Ok]] by auto
      ultimately show ?thesis using c Ok Some Inr
        by (simp add: createJob_def handle_def on_store_def with_state_def)
    qed
  qed
qed

lemma createJob_accepted:
  assumes "decode_request b = Some req" and "Lookup reg (resolve_worker req) = Inr w"
    and "createJob reg uuid rid b s = (Inr resp, s')" and "rs_Status resp = 202"
  shows "CreateJob (new_job (sup_cfg s) req w uuid) (sup_st s) = (Inr (), sup_st s')"
proof -
  obtain r t where c: "CreateJob (new_job (sup_cfg s) req w uuid) (sup_st s) = (r, t)" by fastforce
  with assms show ?thesis
    by (cases r) (auto simp: createJob_def writeError_def handle_def on_store_def with_state_def)
qed

lemma Itoa_pos: "0 < z \<Longrightarrow> Itoa z = nat_digits (nat z)"
  by (simp add: Itoa_def)

lemma nat_digits_not_flag: "nat_digits n \<noteq> CHR ''-'' # cs" "CHR ''-'' # cs \<noteq> nat_digits n"
  using nat_digits_no_sign(1) [of n] by (auto simp: HasPrefix_def dest: sym)

lemma utf8_ok_digits: "utf8_ok (nat_digits n)"
proof -
  have "list_all (\<lambda>c. byte c < 128) (nat_digits n)"
    using nat_digits_digits [of n] by (auto simp: list_all_iff is_digit_def)
  then show ?thesis by simp
qed

text \<open>The flags of a created job as the supervisor reads them.\<close>

lemma request_args_read:
  assumes "cr_Args req = []" and "\<not> HasPrefix name ''--''"
  shows "argOr (request_args req name w) ''--worker'' ''primes'' = name"
    "argOr (request_args req name w) ''--limit'' d = (if cr_Limit req > 0 then Itoa (cr_Limit req) else d)"
    "argOr (request_args req name w) ''--checkpoint-every'' d =
       (let n = (if cr_CheckpointEvery req = 0 then wk_CheckpointInterval w else cr_CheckpointEvery req)
        in if n > 0 then Itoa n else d)"
    "argOr (request_args req name w) ''--seed'' d = (if cr_Seed req > 0 then Itoa (cr_Seed req) else d)"
proof -
  have "name \<noteq> CHR ''-'' # CHR ''-'' # cs" for cs using assms(2) by (auto simp: HasPrefix_def)
  note simps = assms(1) this request_args_def Let_def Itoa_pos nat_digits_not_flag
  show "argOr (request_args req name w) ''--worker'' ''primes'' = name" by (simp add: simps)
  show "argOr (request_args req name w) ''--limit'' d = (if cr_Limit req > 0 then Itoa (cr_Limit req) else d)"
    by (simp add: simps)
  show "argOr (request_args req name w) ''--checkpoint-every'' d =
       (let n = (if cr_CheckpointEvery req = 0 then wk_CheckpointInterval w else cr_CheckpointEvery req)
        in if n > 0 then Itoa n else d)" by (simp add: simps)
  show "argOr (request_args req name w) ''--seed'' d = (if cr_Seed req > 0 then Itoa (cr_Seed req) else d)"
    by (simp add: simps)
qed


definition demo_body :: string where
  "demo_body = [CHR ''{'', CHR 0x22] @ ''limit'' @ [CHR 0x22] @ '':500}''"

lemma demo_body_read: "decode_request demo_body = Some (zero_request\<lparr>cr_Limit := 500\<rparr>)"
  by code_simp

lemma demo_create:
  "\<exists>s'. createJob Default ''u'' ''r'' demo_body (demo_sup\<lparr>sup_st := demo_store\<rparr>) =
     (Inr \<lparr>rs_Status = 202, rs_Body = BodyAccepted ''u'' StatePending\<rparr>, s') \<and> quiet (sup_st s')"
  unfolding createJob_def demo_body_read
  by (simp add: Lookup_def Default_def default_workers_def add_worker_def empty_registry_def resolve_worker_def zero_request_def
      with_state_def handle_def on_store_def demo_eval new_job_def Let_def quiet_def)


section \<open>Cancelling a job\<close>

definition after_stop :: "'d cli \<Rightarrow> Job \<Rightarrow> 'd Supervisor \<Rightarrow> 'd" where
  "after_stop cli job s =
     (case job_ContainerID job of None \<Rightarrow> engine s
      | Some c \<Rightarrow> snd (docker_Stop cli c (cc_GracePeriod (sup_cfg s)) (engine s)))"

lemma Cancel_known:
  assumes "good (sup_st s)" and "sup_docker s" and "find_job i (tables s) = Some r" and "scanJob r = Inr job"
  shows "Cancel cli i s = on_store (Transition i StateCancelled [assigns []])
     (s\<lparr>sup_st := (sup_st s)\<lparr>calls := Suc (calls (sup_st s))\<rparr>, engine := after_stop cli job s\<rparr>)"
  using GetJob_good [OF assms(1,3,4)] assms(2)
  by (simp add: Cancel_def Transition_no_setters bnd_def on_store_def with_state_def dropped_on_docker after_stop_def
      split: option.splits)

lemma cancellable:
  assumes "db_inv d" and "find_job i d = Some r" and "scanJob r = Inr job"
  shows "IsValidTransition (job_State job) StateCancelled \<longleftrightarrow>
     job_State job \<notin> {StateCompleted, StateFailed, StateInterruptedUnresumable}"
proof -
  have "row_inv r" using assms(1,2) by (auto simp: db_inv_def dest: find_job_has_id)
  then obtain l where "r ''state'' = Text (state_name l)" by (rule row_invE)
  with scanJob_state [OF assms(3)] have "job_State job = state_name l" by simp
  then show ?thesis by (cases l) (simp_all add: IsValidTransition_def validTransitions_def state_defs)
qed



end
