(* ===== verification/SupervisorRuns.thy ===== *)
theory SupervisorRuns
  imports SupervisorProps
begin

text \<open>
  Interleavings of the supervisor's operations: a controller with calls under way as a step
  relation, and the invariants of all its runs.
\<close>

section \<open>Interleavings\<close>

text \<open>
  A controller in which calls are under way: a start between its phases, a cancellation
  between \<open>docker stop\<close> and its transition. Its steps are the phases of the supervisor's
  operations and the steps of the trackers' goroutines, in any order; any well-behaved store
  command of another component (the API, the recovery scan); and any change of the engine, as
  containers run and exit by themselves.
\<close>

datatype inflight = Prepared string RunOptions | Launched string string | Stopped string

record 'd controller =
  supv :: "'d Supervisor"
  inflight :: "inflight list"

definition cancel_stop :: "'d cli \<Rightarrow> string \<Rightarrow> ('d, unit) sup_op" where
  "cancel_stop cli jobID =
     bnd (on_store (GetJob jobID)) (\<lambda>job.
     case job_ContainerID job of
       None \<Rightarrow> ret ()
     | Some cid \<Rightarrow> with_state (\<lambda>s. dropped (on_docker (docker_Stop cli cid (cc_GracePeriod (sup_cfg s))))))"

lemma Cancel_phases: "Cancel cli i = bnd (cancel_stop cli i) (\<lambda>_. on_store (Transition i StateCancelled []))"
  unfolding Cancel_def cancel_stop_def bnd_assoc
  by (rule arg_cong [where f = "bnd (on_store (GetJob i))"], rule ext) (simp split: option.splits)

inductive controller_step :: "'d cli \<Rightarrow> (string \<Rightarrow> string option) \<Rightarrow> 'd controller \<Rightarrow> 'd controller \<Rightarrow> bool"
  for cli mkdirAll where
  prepare: "start_prepare mkdirAll i (supv w) = (r, s) \<Longrightarrow>
     controller_step cli mkdirAll w (w\<lparr>supv := s, inflight := (case r of Inr opts \<Rightarrow> [Prepared i opts] | Inl _ \<Rightarrow> []) @ inflight w\<rparr>)"
| launch: "inflight w = xs @ Prepared i opts # ys \<Longrightarrow> on_docker (docker_Run cli opts) (supv w) = (r, s) \<Longrightarrow>
     controller_step cli mkdirAll w (w\<lparr>supv := s, inflight := xs @ (case r of Inr c \<Rightarrow> [Launched i c] | Inl _ \<Rightarrow> []) @ ys\<rparr>)"
| commit: "inflight w = xs @ Launched i c # ys \<Longrightarrow>
     controller_step cli mkdirAll w (w\<lparr>supv := snd (start_commit cli i c (supv w)), inflight := xs @ ys\<rparr>)"
| adopt: "controller_step cli mkdirAll w (w\<lparr>supv := snd (AdoptRunning i c (supv w))\<rparr>)"
| stream: "controller_step cli mkdirAll w (w\<lparr>supv := snd (stream_step cli k stim (supv w))\<rparr>)"
| stop: "cancel_stop cli i (supv w) = (r, s) \<Longrightarrow>
     controller_step cli mkdirAll w (w\<lparr>supv := s, inflight := (if isl r then [] else [Stopped i]) @ inflight w\<rparr>)"
| cancel: "inflight w = xs @ Stopped i # ys \<Longrightarrow>
     controller_step cli mkdirAll w
       (w\<lparr>supv := snd (on_store (Transition i StateCancelled []) (supv w)), inflight := xs @ ys\<rparr>)"
| interrupt: "controller_step cli mkdirAll w (w\<lparr>supv := snd (markInterrupted i fault (supv w))\<rparr>)"
| store: "well_behaved c \<Longrightarrow>
     controller_step cli mkdirAll w (w\<lparr>supv := (supv w)\<lparr>sup_st := exec_cmd c (sup_st (supv w))\<rparr>\<rparr>)"
| engine: "controller_step cli mkdirAll w (w\<lparr>supv := (supv w)\<lparr>engine := d\<rparr>\<rparr>)"

inductive_cases controller_stepE: "controller_step cli mkdirAll w w'"

context store_inv
begin

lemma keeps_cancel_stop: "keeps (\<lambda>s. P (tables s)) (cancel_stop cli i)"
  unfolding cancel_stop_def by (intro keeps_sup keeps_on_reads)

lemma controller_step_keeps:
  assumes "controller_step cli mkdirAll w w'" and "P (tables (supv w))"
  shows "P (tables (supv w'))"
  using assms(1)
proof cases
  case (prepare i r s)
  then show ?thesis using keepsD [OF keeps_start_prepare [of mkdirAll i] assms(2)] by simp
next
  case (launch xs i opts ys r s)
  then show ?thesis using keepsD [OF keeps_on_docker [of P "docker_Run cli opts"] assms(2)] by simp
next
  case (commit xs i c ys)
  then show ?thesis using keepsD [OF keeps_start_commit assms(2)] by simp
next
  case (adopt i c)
  then show ?thesis using keepsD [OF keeps_track [of P] assms(2)] by (simp add: AdoptRunning_def)
next
  case (stream k stim)
  then show ?thesis using keepsD [OF keeps_stream_step assms(2)] by simp
next
  case (stop i r s)
  then show ?thesis using keepsD [OF keeps_cancel_stop [of cli i] assms(2)] by simp
next
  case (cancel xs i ys)
  then show ?thesis using keepsD [OF keeps_plain_Transition assms(2)] by simp
next
  case (interrupt i fault)
  then show ?thesis using keepsD [OF keeps_markInterrupted assms(2)] by simp
next
  case (store c)
  then show ?thesis using exec_keeps assms(2) by simp
next
  case (engine d)
  then show ?thesis using assms(2) by simp
qed

lemma controller_run_keeps:
  "(controller_step cli mkdirAll)\<^sup>*\<^sup>* w w' \<Longrightarrow> P (tables (supv w)) \<Longrightarrow> P (tables (supv w'))"
  by (induction rule: rtranclp_induct) (auto intro: controller_step_keeps)

end

lemma demo_running_inv: "db_inv (tables demo_running)" "audit_inv (tables demo_running)"
proof -
  have "audit_inv (db demo_created)"
    using audit_inv_exec [of demo_store "CCreate (demo_job ''a'')"] by (simp add: demo_created_def demo_store_def)
  then have "db_inv (tables demo_sup) \<and> audit_inv (tables demo_sup)" using demo_created_facts by simp
  from keepsD [OF tables.keeps_Start this, of "demo_cli ''''" "\<lambda>_. None" "''a''"]
  show "db_inv (tables demo_running)" "audit_inv (tables demo_running)" by (simp_all add: demo_running_def)
qed

text \<open>The tracked jobs: each names a live tracker of that job.\<close>

definition trackers_ok :: "'d Supervisor \<Rightarrow> bool" where
  "trackers_ok s \<longleftrightarrow> (\<forall>i k. map_of (tracked s) i = Some k \<longrightarrow>
     k < length (trackers s) \<and> tr_jobID (trackers s ! k) = i \<and> tr_phase (trackers s ! k) \<noteq> Finished)"

definition same_trackers :: "'d Supervisor \<Rightarrow> 'd Supervisor \<Rightarrow> bool" where
  "same_trackers s s' \<longleftrightarrow> tracked s' = tracked s \<and> trackers s' = trackers s"

lemma keeps_trackers_basic:
  "keeps (same_trackers s) (on_store m)" "keeps (same_trackers s) (on_docker f)" "keeps (same_trackers s) check_leader"
  by (auto simp: keeps_def same_trackers_def on_store_def on_docker_def check_leader_run split: prod.splits)

lemma keeps_trackers:
  "keeps (same_trackers s) (start_prepare mkdirAll i)" "keeps (same_trackers s) (markFailed i)"
  "keeps (same_trackers s) (after_exit cli i c saw insp)" "keeps (same_trackers s) (cancel_stop cli i)"
  "keeps (same_trackers s) (markInterrupted i fault)"
  unfolding start_prepare_def markFailed_def after_exit_def cancel_stop_def markInterrupted_def dropped_def Let_def
  by (intro keeps_intros keeps_with_state keeps_handle keeps_trackers_basic)+

lemma same_trackers_refl [simp]: "same_trackers s s"
  by (simp add: same_trackers_def)

text \<open>A step of tracker \<open>k\<close> changes at most the phase of that tracker, and untracks its job at the end.\<close>

definition tracker_moved :: "nat \<Rightarrow> 'd Supervisor \<Rightarrow> 'd Supervisor \<Rightarrow> bool" where
  "tracker_moved k s s' \<longleftrightarrow>
     same_trackers s s' \<or>
     k < length (trackers s) \<and> tr_phase (trackers s ! k) \<noteq> Finished \<and>
       ((\<exists>b. same_trackers (set_phase k (Scanning b) s) s') \<or> same_trackers (snd (stream_done k s)) s')"

lemma stream_done_moved:
  assumes "keeps (same_trackers s) m" and "same_trackers s s1"
    and "k < length (trackers s)" and "tr_phase (trackers s ! k) \<noteq> Finished"
  shows "tracker_moved k s (snd (bnd m (\<lambda>_. stream_done k) s1))"
proof -
  obtain r s2 where m: "m s1 = (r, s2)" by fastforce
  with keepsD [OF assms(1,2)] have "same_trackers s s2" by simp
  then have "same_trackers (snd (stream_done k s)) (snd (stream_done k s2))"
    by (simp add: same_trackers_def stream_done_def set_phase_def)
  with m assms(3,4) \<open>same_trackers s s2\<close> show ?thesis by (cases r) (simp_all add: bnd_def tracker_moved_def)
qed

lemma stream_attach_moved:
  assumes "k < length (trackers s)" and "tr_phase (trackers s ! k) \<noteq> Finished"
  shows "tracker_moved k s (snd (stream_attach cli k s))"
proof -
  let ?t = "trackers s ! k"
  obtain r s1 where o: "on_docker (FollowLogs cli (tr_containerID ?t)) s = (r, s1)" by fastforce
  with keepsD [OF keeps_trackers_basic(2) same_trackers_refl, of s "FollowLogs cli (tr_containerID ?t)"]
  have st: "same_trackers s s1" by simp
  then have "same_trackers (set_phase k (Scanning False) s) (set_phase k (Scanning False) s1)"
    by (simp add: same_trackers_def set_phase_def)
  then show ?thesis
    using o st assms stream_done_moved [OF keeps_trackers(2) st assms, of "tr_jobID ?t"]
    by (cases r) (auto simp: stream_attach_def handle_def Let_def tracker_moved_def)
qed

lemma stream_close_moved:
  assumes "k < length (trackers s)" and "tr_phase (trackers s ! k) \<noteq> Finished"
  shows "tracker_moved k s (snd (stream_close cli k saw s))"
proof -
  let ?t = "trackers s ! k"
  obtain r s1 where o: "on_docker (docker_Inspect cli (tr_containerID ?t)) s = (r, s1)" by fastforce
  with keepsD [OF keeps_trackers_basic(2) same_trackers_refl, of s "docker_Inspect cli (tr_containerID ?t)"]
  have st: "same_trackers s s1" by simp
  then show ?thesis
    using o assms stream_done_moved [OF keeps_trackers(2) st assms, of "tr_jobID ?t"]
      stream_done_moved [OF keeps_trackers(3) st assms, of cli "tr_jobID ?t" "tr_containerID ?t" saw]
    by (cases r) (auto simp: stream_close_def handle_def Let_def tracker_moved_def)
qed

lemma stream_line_moved:
  assumes "k < length (trackers s)" and "tr_phase (trackers s ! k) \<noteq> Finished"
  shows "tracker_moved k s (snd (stream_line k raw s))"
  using assms
  by (cases "line_event raw") (auto simp: stream_line_def dropped_on_store tracker_moved_def same_trackers_def)

lemma stream_step_moved: "tracker_moved k s (snd (stream_step cli k stim s))"
  by (cases "tr_phase (trackers s ! k)"; cases stim)
    (auto simp: stream_step_def stream_attach_moved stream_close_moved stream_line_moved, simp_all add: tracker_moved_def)

text \<open>What never changes of the trackers: they are only added, and a finished one stays finished.\<close>

definition trackers_grow :: "tracker list \<Rightarrow> tracker list \<Rightarrow> bool" where
  "trackers_grow ts ts' \<longleftrightarrow> length ts \<le> length ts' \<and> (\<forall>k < length ts.
     tr_jobID (ts' ! k) = tr_jobID (ts ! k) \<and> tr_containerID (ts' ! k) = tr_containerID (ts ! k) \<and>
     (tr_phase (ts ! k) = Finished \<longrightarrow> tr_phase (ts' ! k) = Finished))"

lemma trackers_grow_refl [simp]: "trackers_grow ts ts"
  by (simp add: trackers_grow_def)

lemma trackers_grow_trans: "trackers_grow a b \<Longrightarrow> trackers_grow b c \<Longrightarrow> trackers_grow a c"
  by (auto simp: trackers_grow_def)

lemma same_trackers_ok: "same_trackers s s' \<Longrightarrow> trackers_ok s' = trackers_ok s \<and> trackers s' = trackers s"
  by (simp add: same_trackers_def trackers_ok_def)

lemma track_ok:
  assumes "trackers_ok s"
  shows "trackers_ok (snd (track i c s)) \<and> trackers_grow (trackers s) (trackers (snd (track i c s)))"
  using assms by (auto simp: track_def trackers_ok_def trackers_grow_def nth_append intro: less_SucI)

lemma tracker_moved_ok:
  assumes "tracker_moved k s s'" and "trackers_ok s"
  shows "trackers_ok s' \<and> trackers_grow (trackers s) (trackers s')"
proof -
  have scan: "trackers_ok (set_phase k (Scanning b) s) \<and> trackers_grow (trackers s) (trackers (set_phase k (Scanning b) s))"
    if "k < length (trackers s)" "tr_phase (trackers s ! k) \<noteq> Finished" for b
    using assms(2) that by (auto simp: trackers_ok_def trackers_grow_def set_phase_def nth_list_update)
  have fin: "trackers_ok (snd (stream_done k s)) \<and> trackers_grow (trackers s) (trackers (snd (stream_done k s)))"
    if "k < length (trackers s)"
    using assms(2) that
    by (auto simp: trackers_ok_def trackers_grow_def stream_done_def set_phase_def nth_list_update delete_conv' split: if_splits)
  from assms(1) show ?thesis unfolding tracker_moved_def
  proof (elim disjE conjE exE)
    assume "same_trackers s s'"
    from same_trackers_ok [OF this] assms(2) show ?thesis by simp
  next
    fix b
    assume "k < length (trackers s)" "tr_phase (trackers s ! k) \<noteq> Finished" and st: "same_trackers (set_phase k (Scanning b) s) s'"
    with scan [of b] same_trackers_ok [OF st] show ?thesis by simp
  next
    assume "k < length (trackers s)" and st: "same_trackers (snd (stream_done k s)) s'"
    with fin same_trackers_ok [OF st] show ?thesis by simp
  qed
qed

lemma start_commit_trackers:
  fixes s :: "'d Supervisor"
  assumes "trackers_ok s"
  shows "trackers_ok (snd (start_commit cli i c s)) \<and> trackers_grow (trackers s) (trackers (snd (start_commit cli i c s)))"
proof -
  let ?m = "on_store (Transition i StateRunning [assigns (running_sets s i c)])"
  obtain r s1 where o: "?m s = (r, s1)" by fastforce
  have st: "same_trackers s s1" using keepsD [OF keeps_trackers_basic(1) same_trackers_refl, of s "Transition i StateRunning [assigns (running_sets s i c)]"] o by simp
  show ?thesis
  proof (cases r)
    case (Inr u)
    with o have "start_commit cli i c s = track i c s1" by (simp add: start_commit_def handle_def)
    with track_ok [of s1 i c] same_trackers_ok [OF st] assms show ?thesis by simp
  next
    case (Inl e)
    have "keeps (same_trackers s) (bnd (dropped (on_docker (docker_Remove cli c))) (\<lambda>_. fail e) :: ('d, unit) sup_op)"
      unfolding dropped_def by (intro keeps_intros keeps_handle keeps_trackers_basic)
    from keepsD [OF this st] o Inl st have "same_trackers s (snd (start_commit cli i c s))"
      by (simp add: start_commit_def handle_def)
    from same_trackers_ok [OF this] assms show ?thesis by simp
  qed
qed

lemma same_trackers_step:
  "same_trackers s s' \<Longrightarrow> trackers_ok s \<Longrightarrow> trackers_ok s' \<and> trackers_grow (trackers s) (trackers s')"
  using same_trackers_ok [of s s'] by simp

lemma controller_step_trackers:
  assumes "controller_step cli mkdirAll w w'" and ok: "trackers_ok (supv w)"
  shows "trackers_ok (supv w') \<and> trackers_grow (trackers (supv w)) (trackers (supv w'))"
proof -
  note kept = same_trackers_step [OF _ ok] and refl = same_trackers_refl [of "supv w"]
  from assms(1) show ?thesis
  proof cases
    case (prepare i r s)
    with keepsD [OF keeps_trackers(1) refl, of mkdirAll i] show ?thesis by (simp add: kept)
  next
    case (launch xs i opts ys r s)
    with keepsD [OF keeps_trackers_basic(2) refl, of "docker_Run cli opts"] show ?thesis by (simp add: kept)
  next
    case (commit xs i c ys)
    with start_commit_trackers [OF ok] show ?thesis by simp
  next
    case (adopt i c)
    with track_ok [OF ok] show ?thesis by (simp add: AdoptRunning_def)
  next
    case (stream k stim)
    with tracker_moved_ok [OF stream_step_moved ok] show ?thesis by simp
  next
    case (stop i r s)
    with keepsD [OF keeps_trackers(4) refl, of cli i] show ?thesis by (simp add: kept)
  next
    case (cancel xs i ys)
    with keepsD [OF keeps_trackers_basic(1) refl, of "Transition i StateCancelled []"] show ?thesis by (simp add: kept)
  next
    case (interrupt i fault)
    with keepsD [OF keeps_trackers(5) refl, of i fault] show ?thesis by (simp add: kept)
  next
    case (store c)
    then show ?thesis using ok by (simp add: trackers_ok_def)
  next
    case (engine d)
    then show ?thesis using ok by (simp add: trackers_ok_def)
  qed
qed



end
