(* ===== verification/Cluster.thy ===== *)
theory Cluster
  imports Prelude
begin

text \<open>
  Model of \<open>internal/cluster\<close> without its Redis backend: the \<open>Locker\<close> interface as a record of
  operations and as a locale with its laws, the in-memory locker, the elector with its
  leader and follower loops as a transition function on the points where they block, and the
  cluster of several electors on one locker as a step relation with a clock.
\<close>

section \<open>The Locker interface\<close>

text \<open>Durations and instants are nanoseconds; the instant of a call is an argument of it.\<close>

datatype lock_error = ErrNotHeld | Canceled | LockError string

record 'l Locker =
  Acquire :: "nanos \<Rightarrow> string \<Rightarrow> string \<Rightarrow> int \<Rightarrow> 'l \<Rightarrow> (lock_error + bool) \<times> 'l"
  Refresh :: "nanos \<Rightarrow> string \<Rightarrow> string \<Rightarrow> int \<Rightarrow> 'l \<Rightarrow> (lock_error + unit) \<times> 'l"
  Release :: "nanos \<Rightarrow> string \<Rightarrow> string \<Rightarrow> 'l \<Rightarrow> (lock_error + unit) \<times> 'l"

section \<open>The in-memory locker\<close>

record inMemoryHold =
  hold_holder :: string
  expiresAt :: nanos

type_synonym InMemoryLocker = "string \<rightharpoonup> inMemoryHold"

definition NewInMemoryLocker :: InMemoryLocker where
  "NewInMemoryLocker = Map.empty"

definition mem_Acquire :: "nanos \<Rightarrow> string \<Rightarrow> string \<Rightarrow> int \<Rightarrow> InMemoryLocker \<Rightarrow> (lock_error + bool) \<times> InMemoryLocker" where
  "mem_Acquire now key holder ttl holds =
     (let take = (Inr True, holds(key \<mapsto> \<lparr>hold_holder = holder, expiresAt = now + ttl\<rparr>)) in
      case holds key of
        None \<Rightarrow> take
      | Some h \<Rightarrow> if now > expiresAt h \<or> hold_holder h = holder then take else (Inr False, holds))"

definition mem_Refresh :: "nanos \<Rightarrow> string \<Rightarrow> string \<Rightarrow> int \<Rightarrow> InMemoryLocker \<Rightarrow> (lock_error + unit) \<times> InMemoryLocker" where
  "mem_Refresh now key holder ttl holds =
     (case holds key of
        None \<Rightarrow> (Inl ErrNotHeld, holds)
      | Some h \<Rightarrow> if hold_holder h \<noteq> holder \<or> now > expiresAt h then (Inl ErrNotHeld, holds)
          else (Inr (), holds(key \<mapsto> \<lparr>hold_holder = holder, expiresAt = now + ttl\<rparr>)))"

definition mem_Release :: "nanos \<Rightarrow> string \<Rightarrow> string \<Rightarrow> InMemoryLocker \<Rightarrow> (lock_error + unit) \<times> InMemoryLocker" where
  "mem_Release now key holder holds =
     (case holds key of
        None \<Rightarrow> (Inl ErrNotHeld, holds)
      | Some h \<Rightarrow> if hold_holder h \<noteq> holder then (Inl ErrNotHeld, holds) else (Inr (), holds(key := None)))"

definition CurrentHolder :: "nanos \<Rightarrow> string \<Rightarrow> InMemoryLocker \<Rightarrow> string option" where
  "CurrentHolder now key holds =
     (case holds key of None \<Rightarrow> None | Some h \<Rightarrow> if now > expiresAt h then None else Some (hold_holder h))"

definition mem_Locker :: "InMemoryLocker Locker" where
  "mem_Locker = \<lparr>Acquire = mem_Acquire, Refresh = mem_Refresh, Release = mem_Release\<rparr>"

section \<open>The elector\<close>

record Config =
  Key :: string
  ControllerID :: string
  LeaseTTL :: int
  RefreshEvery :: int
  PollEvery :: int

definition Second :: int where
  "Second = 1000000000"

definition DefaultConfig :: Config where
  "DefaultConfig = \<lparr>Key = ''cb:leader:lock'', ControllerID = '''', LeaseTTL = 30 * Second,
     RefreshEvery = 10 * Second, PollEvery = 5 * Second\<rparr>"

datatype callback = OnBecome | OnLose

text \<open>The elector; \<open>fired\<close> lists the callbacks it has made (both are set).\<close>

record Elector =
  cfg :: Config
  leader :: bool
  started :: bool
  fired :: "callback list"

definition New :: "Config \<Rightarrow> Elector" where
  "New c = \<lparr>cfg = c, leader = False, started = False, fired = []\<rparr>"

definition IsLeader :: "Elector \<Rightarrow> bool" where
  "IsLeader e = leader e"

definition setLeader :: "bool \<Rightarrow> Elector \<Rightarrow> Elector" where
  "setLeader v e =
     (let prev = leader e; e' = e\<lparr>leader := v\<rparr> in
      e'\<lparr>fired := fired e' @ (if v \<and> \<not> prev then [OnBecome] else []) @ (if \<not> v \<and> prev then [OnLose] else [])\<rparr>)"

definition tryAcquire :: "'l Locker \<Rightarrow> nanos \<Rightarrow> Elector \<Rightarrow> 'l \<Rightarrow> bool \<times> Elector \<times> 'l" where
  "tryAcquire L now e l =
     (case Acquire L now (Key (cfg e)) (ControllerID (cfg e)) (LeaseTTL (cfg e)) l of
        (Inl err, l') \<Rightarrow> (False, e, l')
      | (Inr ok, l') \<Rightarrow> if ok then (True, setLeader True e, l') else (False, e, l'))"

text \<open>
  The points where the goroutine of \<open>Run\<close> waits or branches: the loop head of \<open>Run\<close>, the
  \<open>select\<close> of \<open>runAsLeader\<close>, the \<open>select\<close> of \<open>runAsFollower\<close>, and after the return; and what can
  wake it: the cancelled context, or the ticker (at the loop head: no cancellation yet).
\<close>

datatype run_pc = LoopHead | Leading | Following | Returned

datatype stimulus = CtxDone | Tick

definition Run :: "Elector \<Rightarrow> Elector \<times> run_pc" where
  "Run e = (if started e then (e, Returned) else (e\<lparr>started := True\<rparr>, LoopHead))"

definition leader_tick :: "'l Locker \<Rightarrow> nanos \<Rightarrow> Elector \<Rightarrow> 'l \<Rightarrow> Elector \<times> run_pc \<times> 'l" where
  "leader_tick L now e l =
     (case Refresh L now (Key (cfg e)) (ControllerID (cfg e)) (LeaseTTL (cfg e)) l of
        (Inr _, l') \<Rightarrow> (e, Leading, l')
      | (Inl err, l') \<Rightarrow>
          if err = ErrNotHeld then (setLeader False e, LoopHead, l')
          else if err \<noteq> Canceled then (setLeader False e, LoopHead, l')
          else (e, Leading, l'))"

fun run_step :: "'l Locker \<Rightarrow> nanos \<Rightarrow> stimulus \<Rightarrow> Elector \<times> run_pc \<Rightarrow> 'l \<Rightarrow> (Elector \<times> run_pc) \<times> 'l" where
  "run_step L now CtxDone (e, LoopHead) l =
     (if IsLeader e then
        (let (_, l') = Release L now (Key (cfg e)) (ControllerID (cfg e)) l in ((setLeader False e, Returned), l'))
      else ((e, Returned), l))"
| "run_step L now Tick (e, LoopHead) l =
     (if IsLeader e then ((e, Leading), l)
      else (let (got, e', l') = tryAcquire L now e l in ((e', if got then LoopHead else Following), l')))"
| "run_step L now CtxDone (e, Leading) l = ((e, LoopHead), l)"
| "run_step L now Tick (e, Leading) l =
     (let (e', pc', l') = leader_tick L now e l in ((e', pc'), l'))"
| "run_step L now CtxDone (e, Following) l = ((e, LoopHead), l)"
| "run_step L now Tick (e, Following) l =
     (let (got, e', l') = tryAcquire L now e l in ((e', if got then LoopHead else Following), l'))"
| "run_step L now stim (e, Returned) l = ((e, Returned), l)"

section \<open>The cluster\<close>

text \<open>
  The controllers that exist, their electors by id, one locker, one clock. A step lets one elector react to a stimulus,
  or lets time pass. \<open>grant\<close> is not part of the program: it remembers when the locker last
  granted the lease to this elector.
\<close>

record node =
  elector :: Elector
  pc :: run_pc
  grant :: nanos

record 'l cluster =
  members :: "string list"
  nodes :: "string \<Rightarrow> node"
  lock :: 'l
  time :: nanos

definition granted :: "'l Locker \<Rightarrow> nanos \<Rightarrow> stimulus \<Rightarrow> node \<Rightarrow> 'l \<Rightarrow> bool" where
  "granted L now stim n l \<longleftrightarrow>
     (let c = cfg (elector n) in
      stim = Tick \<and>
      (case pc n of
         Leading \<Rightarrow> fst (Refresh L now (Key c) (ControllerID c) (LeaseTTL c) l) = Inr ()
       | Returned \<Rightarrow> False
       | _ \<Rightarrow> \<not> IsLeader (elector n) \<and> fst (Acquire L now (Key c) (ControllerID c) (LeaseTTL c) l) = Inr True))"

definition react :: "'l Locker \<Rightarrow> string \<Rightarrow> stimulus \<Rightarrow> 'l cluster \<Rightarrow> 'l cluster" where
  "react L i stim c =
     (let n = nodes c i; ((e', pc'), l') = run_step L (time c) stim (elector n, pc n) (lock c) in
      c\<lparr>nodes := (nodes c)(i := \<lparr>elector = e', pc = pc',
          grant = (if granted L (time c) stim n (lock c) then time c else grant n)\<rparr>), lock := l'\<rparr>)"

inductive cluster_step :: "'l Locker \<Rightarrow> 'l cluster \<Rightarrow> 'l cluster \<Rightarrow> bool" for L where
  act: "i \<in> set (members c) \<Longrightarrow> cluster_step L c (react L i stim c)"
| pass: "time c \<le> t \<Longrightarrow> cluster_step L c (c\<lparr>time := t\<rparr>)"

text \<open>All electors compete for one key, each under its own id, and have entered \<open>Run\<close>.\<close>

definition cluster_init :: "string list \<Rightarrow> string \<Rightarrow> (string \<Rightarrow> Config) \<Rightarrow> 'l \<Rightarrow> nanos \<Rightarrow> 'l cluster" where
  "cluster_init ms k cfgs l t =
     \<lparr>members = ms, nodes = (\<lambda>i. let (e, p) = Run (New ((cfgs i)\<lparr>Key := k, ControllerID := i\<rparr>)) in
        \<lparr>elector = e, pc = p, grant = t\<rparr>), lock = l, time = t\<rparr>"

section \<open>The contract of a locker\<close>

text \<open>
  For the states \<open>ok\<close> of the locker and the keys, holders and durations \<open>valid\<close> for it:
  \<open>holder_at l k t\<close> is the holder of \<open>k\<close> at the instant \<open>t\<close> if no operation is called until then;
  \<open>lease ttl\<close> is how long a grant with \<open>ttl\<close> lasts. Whatever an operation answers, it leaves
  the holds of other holders alone, and what it grants lasts for the lease.
\<close>

locale locker =
  fixes L :: "'l Locker"
    and holder_at :: "'l \<Rightarrow> string \<Rightarrow> nanos \<Rightarrow> string option"
    and lease :: "int \<Rightarrow> int"
    and ok :: "'l \<Rightarrow> bool"
    and valid :: "string \<Rightarrow> string \<Rightarrow> int \<Rightarrow> bool"
  assumes acquire_others: "ok l \<Longrightarrow> valid k h ttl \<Longrightarrow> Acquire L now k h ttl l = (r, l') \<Longrightarrow> now \<le> t \<Longrightarrow> g \<noteq> h \<Longrightarrow>
      holder_at l k now = Some g \<Longrightarrow> holder_at l' k t = holder_at l k t"
    and acquire_granted: "ok l \<Longrightarrow> valid k h ttl \<Longrightarrow> Acquire L now k h ttl l = (Inr True, l') \<Longrightarrow> now \<le> t \<Longrightarrow> t \<le> now + lease ttl \<Longrightarrow>
      holder_at l' k t = Some h"
    and acquire_free: "ok l \<Longrightarrow> valid k h ttl \<Longrightarrow> Acquire L now k h ttl l = (Inr True, l') \<Longrightarrow> holder_at l k now \<in> {None, Some h}"
    and refresh_others: "ok l \<Longrightarrow> valid k h ttl \<Longrightarrow> Refresh L now k h ttl l = (rf, l') \<Longrightarrow> now \<le> t \<Longrightarrow> g \<noteq> h \<Longrightarrow>
      holder_at l k now = Some g \<Longrightarrow> holder_at l' k t = holder_at l k t"
    and refresh_granted: "ok l \<Longrightarrow> valid k h ttl \<Longrightarrow> Refresh L now k h ttl l = (Inr (), l') \<Longrightarrow> now \<le> t \<Longrightarrow> t \<le> now + lease ttl \<Longrightarrow>
      holder_at l' k t = Some h"
    and refresh_held: "ok l \<Longrightarrow> valid k h ttl \<Longrightarrow> Refresh L now k h ttl l = (Inr (), l') \<Longrightarrow> holder_at l k now = Some h"
    and refresh_cancelled: "ok l \<Longrightarrow> valid k h ttl \<Longrightarrow> Refresh L now k h ttl l = (Inl Canceled, l') \<Longrightarrow> holder_at l' k t = holder_at l k t"
    and release_others: "ok l \<Longrightarrow> valid k h ttl \<Longrightarrow> Release L now k h l = (rf, l') \<Longrightarrow> now \<le> t \<Longrightarrow> g \<noteq> h \<Longrightarrow>
      holder_at l k now = Some g \<Longrightarrow> holder_at l' k t = holder_at l k t"
    and hold_lasts: "holder_at l k t = Some h \<Longrightarrow> t' \<le> t \<Longrightarrow> holder_at l k t' = Some h"
    and ok_kept: "ok l \<Longrightarrow> valid k h ttl \<Longrightarrow> Acquire L now k h ttl l = (ra, l1) \<Longrightarrow> ok l1"
      "ok l \<Longrightarrow> valid k h ttl \<Longrightarrow> Refresh L now k h ttl l = (rr, l2) \<Longrightarrow> ok l2"
      "ok l \<Longrightarrow> valid k h ttl \<Longrightarrow> Release L now k h l = (rl, l3) \<Longrightarrow> ok l3"
begin

text \<open>
  The invariant of a cluster on a locker that keeps the contract: a leader's lease is its own
  until it runs out.
\<close>

definition lease_end :: "node \<Rightarrow> nanos" where
  "lease_end n = grant n + lease (LeaseTTL (cfg (elector n)))"

definition node_inv :: "string \<Rightarrow> string \<Rightarrow> 'l cluster \<Rightarrow> bool" where
  "node_inv k i c \<longleftrightarrow>
     (let n = nodes c i in
      Key (cfg (elector n)) = k \<and> ControllerID (cfg (elector n)) = i \<and>
      (pc n = Leading \<longrightarrow> leader (elector n)) \<and> (pc n = Following \<longrightarrow> \<not> leader (elector n)) \<and>
      (leader (elector n) \<longrightarrow> (\<forall>t. time c \<le> t \<and> t \<le> lease_end n \<longrightarrow> holder_at (lock c) k t = Some i)))"

definition cluster_inv :: "string \<Rightarrow> 'l cluster \<Rightarrow> bool" where
  "cluster_inv k c \<longleftrightarrow> ok (lock c) \<and> (\<forall>i. node_inv k i c) \<and>
     (\<forall>i \<in> set (members c). valid k i (LeaseTTL (cfg (elector (nodes c i)))))"

lemma cluster_inv_init:
  "ok l \<Longrightarrow> \<forall>i \<in> set ms. valid k i (LeaseTTL (cfgs i)) \<Longrightarrow> cluster_inv k (cluster_init ms k cfgs l t)"
  by (simp add: cluster_inv_def node_inv_def cluster_init_def Run_def New_def)

lemma setLeader_simps [simp]:
  "leader (setLeader v e) = v" "cfg (setLeader v e) = cfg e" "started (setLeader v e) = started e"
  by (simp_all add: setLeader_def Let_def)

text \<open>Another node's reaction leaves the lease of a leader alone.\<close>

lemma run_step_others:
  assumes "ok l" and "valid k h (LeaseTTL (cfg e))"
    and "run_step L now stim (e, p) l = (ep', l')" and "Key (cfg e) = k" and "ControllerID (cfg e) = h" and "g \<noteq> h" and "holder_at l k now = Some g" and "now \<le> t"
  shows "holder_at l' k t = holder_at l k t"
  using assms
  by (cases "(L, now, stim, (e, p), l)" rule: run_step.cases)
     (auto simp: tryAcquire_def leader_tick_def split: prod.splits sum.splits if_splits
       dest: acquire_others refresh_others release_others)

lemma run_step_ok:
  assumes "ok l" and "valid (Key (cfg e)) (ControllerID (cfg e)) (LeaseTTL (cfg e))"
    and "run_step L now stim (e, p) l = (ep', l')"
  shows "ok l'"
  using assms
  by (cases "(L, now, stim, (e, p), l)" rule: run_step.cases)
     (auto simp: tryAcquire_def leader_tick_def split: prod.splits sum.splits if_splits dest: ok_kept)

lemma run_step_cfg: "run_step L now stim (e, p) l = ((e', p'), l') \<Longrightarrow> cfg e' = cfg e"
  by (cases "(L, now, stim, (e, p), l)" rule: run_step.cases)
     (auto simp: tryAcquire_def leader_tick_def split: prod.splits sum.splits if_splits)

text \<open>The node that reacts.\<close>

lemma node_inv_react_self:
  assumes inv: "cluster_inv k c" and mem: "i \<in> set (members c)"
  shows "node_inv k i (react L i stim c)"
proof -
  let ?n = "nodes c i"
  obtain e p g where n: "?n = \<lparr>elector = e, pc = p, grant = g\<rparr>" by (cases ?n)
  have okl: "ok (lock c)" and own: "node_inv k i c" and val: "valid k i (LeaseTTL (cfg e))"
    using inv mem n by (auto simp: cluster_inv_def)
  note * = own [unfolded node_inv_def Let_def n lease_end_def, simplified]
  note defs = node_inv_def Let_def react_def granted_def lease_end_def n IsLeader_def
  show ?thesis
  proof (cases stim)
    case CtxDone
    with * show ?thesis by (cases p) (auto simp: defs split: prod.splits)
  next
    case Tick
    show ?thesis
    proof (cases p)
      case Leading
      show ?thesis
      proof (cases "Refresh L (time c) k i (LeaseTTL (cfg e)) (lock c)")
        case (Pair r l')
        with * Leading Tick show ?thesis
          using refresh_granted [OF okl val, of "time c" l']
            refresh_cancelled [OF okl val, of "time c" l']
          by (cases r) (auto simp: defs leader_tick_def)
      qed
    next
      case Returned
      with * Tick show ?thesis by (auto simp: defs)
    next
      case LoopHead
      show ?thesis
      proof (cases "Acquire L (time c) k i (LeaseTTL (cfg e)) (lock c)")
        case (Pair r l')
        with * LoopHead Tick show ?thesis
          using acquire_granted [OF okl val, of "time c" l']
          by (cases r; cases "leader e") (auto simp: defs tryAcquire_def)
      qed
    next
      case Following
      show ?thesis
      proof (cases "Acquire L (time c) k i (LeaseTTL (cfg e)) (lock c)")
        case (Pair r l')
        with * Following Tick show ?thesis
          using acquire_granted [OF okl val, of "time c" l']
          by (cases r) (auto simp: defs tryAcquire_def)
      qed
    qed
  qed
qed

lemma react_frame:
  assumes "run_step L (time c) stim (elector (nodes c i), pc (nodes c i)) (lock c) = (ep', l')"
  shows "j \<noteq> i \<Longrightarrow> nodes (react L i stim c) j = nodes c j" and "lock (react L i stim c) = l'"
    and "time (react L i stim c) = time c" and "members (react L i stim c) = members c"
    and "cfg (elector (nodes (react L i stim c) m)) = cfg (elector (nodes c m))"
  using assms run_step_cfg by (cases ep'; auto simp: react_def Let_def)+

lemma node_inv_react_other:
  assumes inv: "cluster_inv k c" and "j \<noteq> i" and mem: "i \<in> set (members c)"
  shows "node_inv k j (react L i stim c)"
proof -
  obtain ep' l' where st: "run_step L (time c) stim (elector (nodes c i), pc (nodes c i)) (lock c) = (ep', l')" by fastforce
  have own: "node_inv k i c" "node_inv k j c" "ok (lock c)" "valid k i (LeaseTTL (cfg (elector (nodes c i))))"
    using inv mem by (simp_all add: cluster_inv_def)
  have same: "nodes (react L i stim c) j = nodes c j" "lock (react L i stim c) = l'" "time (react L i stim c) = time c"
    using react_frame [OF st] assms(2) by simp_all
  have "holder_at l' k t = Some j"
    if "leader (elector (nodes c j))" and t: "time c \<le> t" "t \<le> lease_end (nodes c j)" for t
  proof -
    have h: "holder_at (lock c) k u = Some j" if "time c \<le> u" "u \<le> lease_end (nodes c j)" for u
      using own(2) that \<open>leader (elector (nodes c j))\<close> by (simp add: node_inv_def Let_def)
    have "holder_at l' k t = holder_at (lock c) k t"
      using own(1) assms(2) h [of "time c"] t
      by (intro run_step_others [OF own(3,4) st]) (auto simp: node_inv_def Let_def)
    then show ?thesis using h [OF t] by simp
  qed
  then show ?thesis using own(2) by (simp add: node_inv_def Let_def same)
qed

lemma cluster_inv_step: "cluster_step L c c' \<Longrightarrow> cluster_inv k c \<Longrightarrow> cluster_inv k c'"
proof (induction rule: cluster_step.induct)
  case (act i c stim)
  obtain ep' l' where st: "run_step L (time c) stim (elector (nodes c i), pc (nodes c i)) (lock c) = (ep', l')" by fastforce
  then have "lock (react L i stim c) = l'" by (rule react_frame)
  moreover have "ok l'"
    using act st by (intro run_step_ok [OF _ _ st]) (auto simp: cluster_inv_def node_inv_def Let_def)
  moreover have "node_inv k j (react L i stim c)" for j
    using node_inv_react_self [OF act(2,1)] node_inv_react_other [OF act(2) _ act(1)] by (cases "j = i") simp_all
  ultimately show ?case using act react_frame(4,5) [OF st] by (simp add: cluster_inv_def)
next
  case (pass c t)
  then show ?case by (auto simp: cluster_inv_def node_inv_def Let_def)
qed

lemma cluster_inv_reachable:
  assumes "(cluster_step L)\<^sup>*\<^sup>* (cluster_init ms k cfgs l t) c" and "ok l"
    and "\<forall>i \<in> set ms. valid k i (LeaseTTL (cfgs i))"
  shows "cluster_inv k c"
  using assms(1) by (induction rule: rtranclp_induct) (auto intro: cluster_inv_step cluster_inv_init [OF assms(2,3)])

lemma live_leaders_equal:
  assumes "(cluster_step L)\<^sup>*\<^sup>* (cluster_init ms k cfgs l t) c" and "ok l"
    and "\<forall>i \<in> set ms. valid k i (LeaseTTL (cfgs i))"
    and "leader (elector (nodes c i))" and "time c \<le> lease_end (nodes c i)"
    and "leader (elector (nodes c j))" and "time c \<le> lease_end (nodes c j)"
  shows "i = j"
  using cluster_inv_reachable [OF assms(1-3)] assms(4-) unfolding cluster_inv_def node_inv_def Let_def
  by (metis option.inject order_refl)

end

section \<open>The in-memory locker keeps the contract\<close>

definition mem_holder_at :: "InMemoryLocker \<Rightarrow> string \<Rightarrow> nanos \<Rightarrow> string option" where
  "mem_holder_at l k t = CurrentHolder t k l"

lemmas mem_defs = mem_Locker_def mem_Acquire_def mem_Refresh_def mem_Release_def mem_holder_at_def CurrentHolder_def Let_def

interpretation mem: locker mem_Locker mem_holder_at "\<lambda>ttl. ttl" "\<lambda>_. True" "\<lambda>_ _ _. True"
  by unfold_locales (auto simp: mem_defs split: option.splits if_splits)

section \<open>Properties\<close>

text \<open>
  C4: at most one leader. In a cluster on the in-memory locker, whatever the order in which the
  electors react, are cancelled and lose time, two electors that both believe to be leader
  and whose lease has not run out since the locker last granted it are the same elector.
\<close>

theorem at_most_one_live_leader:
  assumes "(cluster_step mem_Locker)\<^sup>*\<^sup>* (cluster_init ms k cfgs l t) c"
    and "IsLeader (elector (nodes c i))" and "time c \<le> grant (nodes c i) + LeaseTTL (cfg (elector (nodes c i)))"
    and "IsLeader (elector (nodes c j))" and "time c \<le> grant (nodes c j) + LeaseTTL (cfg (elector (nodes c j)))"
  shows "i = j"
  using mem.live_leaders_equal [OF assms(1)] assms(2-) by (simp add: mem.lease_end_def IsLeader_def)

definition demo_cluster :: "InMemoryLocker cluster" where
  "demo_cluster = react mem_Locker ''B'' Tick (react mem_Locker ''A'' Tick
     (cluster_init [''A'', ''B''] ''cb:leader:lock'' (\<lambda>_. DefaultConfig) NewInMemoryLocker 0))"

lemmas elector_eval = react_def cluster_init_def Run_def New_def tryAcquire_def leader_tick_def IsLeader_def setLeader_def
  granted_def mem_Locker_def mem_Acquire_def mem_Refresh_def mem_Release_def NewInMemoryLocker_def Let_def

lemma demo_cluster_reachable:
  "(cluster_step mem_Locker)\<^sup>*\<^sup>* (cluster_init [''A'', ''B''] ''cb:leader:lock'' (\<lambda>_. DefaultConfig) NewInMemoryLocker 0) demo_cluster"
  unfolding demo_cluster_def
  by (rule rtranclp.rtrancl_into_rtrancl [OF r_into_rtranclp]; rule cluster_step.act)
     (simp_all add: elector_eval)

theorem at_most_one_live_leader_witness:
  "IsLeader (elector (nodes demo_cluster ''A'')) \<and> \<not> IsLeader (elector (nodes demo_cluster ''B'')) \<and>
   {j. IsLeader (elector (nodes demo_cluster j)) \<and>
      time demo_cluster \<le> grant (nodes demo_cluster j) + LeaseTTL (cfg (elector (nodes demo_cluster j)))} = {''A''}"
proof -
  have a: "IsLeader (elector (nodes demo_cluster ''A''))" "\<not> IsLeader (elector (nodes demo_cluster ''B''))"
    "time demo_cluster \<le> grant (nodes demo_cluster ''A'') + LeaseTTL (cfg (elector (nodes demo_cluster ''A'')))"
    by (simp_all add: demo_cluster_def elector_eval DefaultConfig_def Second_def)
  then show ?thesis using at_most_one_live_leader [OF demo_cluster_reachable] by blast
qed

text \<open>The callbacks made so far alternate, start with \<open>OnBecome\<close>, and end as the flag says.\<close>

fun alternates :: "bool \<Rightarrow> callback list \<Rightarrow> bool" where
  "alternates lead [] \<longleftrightarrow> True"
| "alternates lead (cb # cbs) \<longleftrightarrow> cb = (if lead then OnLose else OnBecome) \<and> alternates (\<not> lead) cbs"

definition callbacks_ok :: "Elector \<Rightarrow> bool" where
  "callbacks_ok e \<longleftrightarrow> alternates False (fired e) \<and> (leader e \<longleftrightarrow> odd (length (fired e)))"

lemma alternates_append:
  "alternates b (xs @ ys) \<longleftrightarrow> alternates b xs \<and> alternates (b \<noteq> odd (length xs)) ys"
  by (induction xs arbitrary: b) auto

lemma callbacks_setLeader: "callbacks_ok e \<Longrightarrow> callbacks_ok (setLeader v e)"
  by (auto simp: callbacks_ok_def setLeader_def Let_def alternates_append)

lemma callbacks_run_step: "callbacks_ok e \<Longrightarrow> callbacks_ok (fst (fst (run_step L now stim (e, p) l)))"
  by (cases "(L, now, stim, (e, p), l)" rule: run_step.cases)
     (auto simp: tryAcquire_def leader_tick_def callbacks_setLeader split: prod.splits sum.splits)

text \<open>
  C24: the callbacks are exactly the changes of leadership. On any locker, after any run of the
  cluster, the callbacks an elector has made are \<open>onBecome, onLose, onBecome, ...\<close> in turn, and
  the elector is leader exactly when the last one was \<open>onBecome\<close>.
\<close>

theorem callbacks_alternate:
  assumes "(cluster_step L)\<^sup>*\<^sup>* (cluster_init ms k cfgs l t) c"
  shows "alternates False (fired (elector (nodes c i))) \<and>
     (IsLeader (elector (nodes c i)) \<longleftrightarrow> fired (elector (nodes c i)) \<noteq> [] \<and> last (fired (elector (nodes c i))) = OnBecome)"
proof -
  have "callbacks_ok (elector (nodes c i))" using assms
  proof (induction arbitrary: i rule: rtranclp_induct)
    case base
    then show ?case by (simp add: cluster_init_def Run_def New_def callbacks_ok_def)
  next
    case (step c c')
    from step.hyps(2) show ?case
    proof (cases rule: cluster_step.cases)
      case (act j stim)
      have "callbacks_ok (elector (nodes c j))" by (rule step.IH)
      from callbacks_run_step [OF this, of L "time c" stim "pc (nodes c j)" "lock c"] step.IH [of i] show ?thesis
        by (auto simp: act react_def Let_def split: prod.splits)
    qed (use step.IH in simp)
  qed
  moreover have "alternates b cbs \<Longrightarrow> odd (length cbs) \<Longrightarrow> cbs \<noteq> [] \<and> last cbs = (if b then OnLose else OnBecome)"
    and "alternates b cbs \<Longrightarrow> even (length cbs) \<Longrightarrow> cbs \<noteq> [] \<Longrightarrow> last cbs = (if b then OnBecome else OnLose)" for b cbs
    by (induction cbs arbitrary: b) (auto split: if_splits)
  ultimately show ?thesis unfolding callbacks_ok_def IsLeader_def by (metis callback.distinct(1))
qed

theorem callbacks_alternate_witness:
  "alternates False (fired (elector (nodes demo_cluster ''A''))) \<and> fired (elector (nodes demo_cluster ''A'')) = [OnBecome]"
  using callbacks_alternate [OF demo_cluster_reachable, of "''A''"]
  by (simp add: demo_cluster_def elector_eval)

section \<open>Failover\<close>

text \<open>A follower alone with the locker, woken by its ticker \<open>n\<close> times, from \<open>t0\<close> on every \<open>d\<close>.\<close>

fun polls :: "'l Locker \<Rightarrow> nanos \<Rightarrow> int \<Rightarrow> nat \<Rightarrow> Elector \<times> run_pc \<Rightarrow> 'l \<Rightarrow> (Elector \<times> run_pc) \<times> 'l" where
  "polls L t0 d 0 ep l = (ep, l)"
| "polls L t0 d (Suc n) ep l = (let (ep', l') = run_step L t0 Tick ep l in polls L (t0 + d) d n ep' l')"

lemma polls_Suc:
  "polls L t0 d (Suc n) ep l = (let (ep', l') = polls L t0 d n ep l in run_step L (t0 + int n * d) Tick ep' l')"
proof (induction n arbitrary: t0 ep l)
  case 0
  then show ?case by (simp split: prod.splits)
next
  case (Suc n)
  obtain ep1 l1 where r: "run_step L t0 Tick ep l = (ep1, l1)" by fastforce
  have "polls L t0 d (Suc (Suc n)) ep l = polls L (t0 + d) d (Suc n) ep1 l1" by (simp add: r)
  also have "\<dots> = (let (ep', l') = polls L (t0 + d) d n ep1 l1 in run_step L (t0 + d + int n * d) Tick ep' l')"
    by (rule Suc.IH)
  also have "polls L (t0 + d) d n ep1 l1 = polls L t0 d (Suc n) ep l" by (simp add: r)
  finally show ?case by (simp only: of_nat_Suc distrib_right mult_1 add.assoc)
qed

lemma polls_waiting:
  assumes "l (Key (cfg e)) = Some h" and "hold_holder h \<noteq> ControllerID (cfg e)"
    and "\<forall>m < n. t0 + int m * d \<le> expiresAt h"
  shows "polls mem_Locker t0 d n (e, Following) l = ((e, Following), l)"
  using assms(3)
proof (induction n)
  case (Suc n)
  then have "polls mem_Locker t0 d n (e, Following) l = ((e, Following), l)" and "t0 + int n * d \<le> expiresAt h" by simp_all
  then show ?case unfolding polls_Suc using assms(1,2) by (simp add: tryAcquire_def mem_Locker_def mem_Acquire_def Let_def)
qed simp



text \<open>
  with the default timings the bound is reached. A follower that polls at the instant of
  the leader's last refresh, and every five seconds from then on, is still follower after the
  poll at 30 seconds, and takes over at the next one, after 35.
\<close>

theorem default_failover_takes_35_seconds:
  "let e = New (DefaultConfig\<lparr>ControllerID := ''B''\<rparr>);
       l = [''cb:leader:lock'' \<mapsto> \<lparr>hold_holder = ''A'', expiresAt = LeaseTTL DefaultConfig\<rparr>]
   in \<not> IsLeader (fst (fst (polls mem_Locker 0 (PollEvery DefaultConfig) 7 (e, Following) l))) \<and>
      IsLeader (fst (fst (polls mem_Locker 0 (PollEvery DefaultConfig) 8 (e, Following) l))) \<and>
      7 * PollEvery DefaultConfig = 35 * Second"
  by (simp add: eval_nat_numeral DefaultConfig_def Second_def elector_eval)

text \<open>
  C24: a leader that is shut down hands the lease over. Cancelling the context of a leader
  releases the lease before \<open>Run\<close> returns, so that another elector's next attempt succeeds
  without waiting for the lease to run out.
\<close>

theorem shutdown_hands_over:
  assumes "l (Key (cfg e)) = Some \<lparr>hold_holder = ControllerID (cfg e), expiresAt = x\<rparr>" and "IsLeader e"
    and "Key (cfg f) = Key (cfg e)"
  shows "case run_step mem_Locker now CtxDone (e, Leading) l of
     (ep, l1) \<Rightarrow> case run_step mem_Locker now CtxDone ep l1 of
       ((e', p'), l2) \<Rightarrow> p' = Returned \<and> \<not> IsLeader e' \<and>
         fst (tryAcquire mem_Locker now f l2)"
  using assms by (simp add: tryAcquire_def mem_Locker_def mem_Release_def mem_Acquire_def IsLeader_def setLeader_def Let_def)

theorem shutdown_hands_over_witness:
  "let e = (New (DefaultConfig\<lparr>ControllerID := ''A''\<rparr>))\<lparr>leader := True\<rparr>; f = New (DefaultConfig\<lparr>ControllerID := ''B''\<rparr>);
       l = [''cb:leader:lock'' \<mapsto> \<lparr>hold_holder = ''A'', expiresAt = 30\<rparr>]
   in case run_step mem_Locker 1 CtxDone (e, Leading) l of
     (ep, l1) \<Rightarrow> case run_step mem_Locker 1 CtxDone ep l1 of
       ((e', p'), l2) \<Rightarrow> p' = Returned \<and> \<not> IsLeader e' \<and> fst (tryAcquire mem_Locker 1 f l2)"
  unfolding Let_def
  by (rule shutdown_hands_over) (simp_all add: New_def DefaultConfig_def IsLeader_def)

end
