(* ===== verification/Controller.thy ===== *)
theory Controller
  imports Api SupervisorRuns Cluster
begin

text \<open>
  Model of \<open>cmd/controller\<close> and \<open>internal/signals\<close>: the startup of the process from its environment
  to the point where it serves requests, the loop over the signals it receives, and the running
  system, in which requests, the goroutines of the API, the supervisor's steps and the signal
  loop interleave. The theorems follow the job log from the file on disk through the startup
  and through every run.
\<close>

section \<open>Signals\<close>

datatype sig = SIGTERM | SIGINT | SIGHUP | SIGUSR1

text \<open>What the \<open>select\<close> of \<open>Run\<close> receives next: the end of the context, or a signal.\<close>

datatype sig_event = CtxDone | Received sig

text \<open>
  \<open>signals.Run\<close> on the sequence of events it receives; \<open>True\<close> when it has returned (after
  \<open>OnExit\<close>), \<open>False\<close> when it waits for the next event. \<open>reload\<close> is the callback \<open>Reload\<close>, which in
  the controller only reads the environment and logs. \<open>waits\<close> and \<open>rest\<close> are what goes on during
  the shutdown.
\<close>

fun signals_Run ::
  "'d cli \<Rightarrow> (nat \<times> Supervisor.stimulus) list list \<Rightarrow> (nat \<times> Supervisor.stimulus) list \<Rightarrow> ('d, unit) sup_op \<Rightarrow> sig_event list \<Rightarrow> ('d, bool) sup_op" where
  "signals_Run cli waits rest reload [] = ret False"
| "signals_Run cli waits rest reload (CtxDone # es) =
     bnd (ShutdownGraceful cli waits rest False) (\<lambda>_. ret True)"
| "signals_Run cli waits rest reload (Received g # es) =
     (case g of
        SIGTERM \<Rightarrow> bnd (ShutdownGraceful cli waits rest False) (\<lambda>_. ret True)
      | SIGINT \<Rightarrow> bnd (ShutdownGraceful cli waits rest False) (\<lambda>_. ret True)
      | SIGHUP \<Rightarrow> bnd reload (\<lambda>_. signals_Run cli waits rest reload es)
      | SIGUSR1 \<Rightarrow> bnd (ShutdownGraceful cli waits rest True) (\<lambda>_. ret True))"

section \<open>Startup\<close>

text \<open>
  The host a controller starts on: the environment, the binaries on the path, the outcome of
  creating directories, the database file and its driver, the container engine, the process
  id, the order of map iteration, four random bytes in hex, the successive answers of the
  elector's \<open>IsLeader\<close>, the contents of \<open>worker_registry.yaml\<close>, and the rounding of the product
  in \<open>time.ParseDuration\<close>.
\<close>

record 'd host =
  h_env :: environment
  h_found :: "string \<Rightarrow> bool"
  h_mkdirAll :: "string \<Rightarrow> string option"
  h_disk :: "database option"
  h_driver :: Store
  h_engine :: 'd
  h_pid :: int
  h_order :: "string list \<Rightarrow> string list"
  h_random :: string
  h_isLeader :: "nat \<Rightarrow> bool"
  h_registry :: "string + string"
  h_fmul :: "nat \<Rightarrow> nat \<Rightarrow> nat \<Rightarrow> nat"

datatype 'd process =
  FatalStore string
| FatalDocker docker_error
| Panicked
| Serving "'d Supervisor" Registry

definition controller_id :: "controller_config \<Rightarrow> string \<Rightarrow> string" where
  "controller_id c random = (if cc_ControllerID c = '''' then ''ctl-'' @ random else cc_ControllerID c)"

text \<open>The elector's configuration; its runs are the subject of theory \<open>Cluster\<close>.\<close>

definition elect_config :: "controller_config \<Rightarrow> string \<Rightarrow> Config" where
  "elect_config c random =
     \<lparr>Key = cc_ClusterKey c, ControllerID = controller_id c random, LeaseTTL = cc_LeaseTTL c,
      RefreshEvery = cc_RefreshEvery c, PollEvery = cc_PollEvery c\<rparr>"

definition docker_client :: "'d host \<Rightarrow> controller_config \<Rightarrow> docker_error + bool" where
  "docker_client h c =
     (if cc_NoDocker c then Inr False
      else case NewClient (h_env h) (h_found h) of Inl e \<Rightarrow> Inl e | Inr _ \<Rightarrow> Inr True)"

definition new_supervisor :: "'d host \<Rightarrow> controller_config \<Rightarrow> Store \<Rightarrow> bool \<Rightarrow> 'd Supervisor" where
  "new_supervisor h c st dc =
     (let sup = sup_New c st dc (h_engine h) (h_pid h) (h_order h)
      in if cc_RedisAddr c \<noteq> '''' then SetLeaderCheck (controller_id c (h_random h)) (h_isLeader h) sup else sup)"

definition load_registry :: "string + string \<Rightarrow> Registry" where
  "load_registry f = (case LoadFile f of Inl _ \<Rightarrow> Default | Inr reg \<Rightarrow> reg)"

text \<open>\<open>main\<close> up to the point where the HTTP server listens; an error of the scan is only logged.\<close>

definition startup :: "'d cli \<Rightarrow> 'd host \<Rightarrow> 'd process" where
  "startup cli h =
     (let c = Load (h_fmul h) (h_env h) in
      case Open (h_mkdirAll h) (cc_DBPath c) (h_disk h) (h_driver h) of
        Inl e \<Rightarrow> FatalStore e
      | Inr st \<Rightarrow>
          (case docker_client h c of
             Inl e \<Rightarrow> FatalDocker e
           | Inr dc \<Rightarrow>
               (case recovery_Run cli (h_mkdirAll h) True (new_supervisor h c st dc) of
                  (r, s) \<Rightarrow> if r = Inl NilDereference then Panicked
                            else Serving s (load_registry (h_registry h)))))"

section \<open>The running system\<close>

text \<open>
  Requests are served, jobs created by them are started by goroutines, and signals arrive, in
  any order with the steps of the supervisor (theory \<open>SupervisorRuns\<close>). A second scan is allowed
  too, though the code has only the one at startup.
\<close>

inductive system_step :: "'d cli \<Rightarrow> (string \<Rightarrow> string option) \<Rightarrow> Registry \<Rightarrow> 'd controller \<Rightarrow> 'd controller \<Rightarrow> bool"
  for cli mkdirAll reg where
  internal: "controller_step cli mkdirAll w w' \<Longrightarrow> system_step cli mkdirAll reg w w'"
| request: "system_step cli mkdirAll reg w (w\<lparr>supv := snd (serve_request cli reg uuid random r (supv w))\<rparr>)"
| start: "system_step cli mkdirAll reg w (w\<lparr>supv := snd (start_created cli mkdirAll i (supv w))\<rparr>)"
| signal: "system_step cli mkdirAll reg w (w\<lparr>supv := snd (signals_Run cli waits rest (ret ()) es (supv w))\<rparr>)"
| rescan: "system_step cli mkdirAll reg w (w\<lparr>supv := snd (recovery_Run cli mkdirAll auto (supv w))\<rparr>)"

inductive_cases system_stepE: "system_step cli mkdirAll reg w w'"

context store_inv
begin

lemma keeps_signals_Run:
  "keeps (\<lambda>s. P (tables s)) reload \<Longrightarrow> keeps (\<lambda>s. P (tables s)) (signals_Run cli waits rest reload es)"
proof (induction es)
  case (Cons e es)
  show ?case
  proof (cases e)
    case CtxDone
    then show ?thesis by (simp only: signals_Run.simps) (intro keeps_sup keeps_ShutdownGraceful)
  next
    case (Received g)
    with Cons show ?thesis
      by (cases g) (simp_all only: signals_Run.simps sig.case, auto intro!: keeps_bnd keeps_ShutdownGraceful simp del: comp_run)
  qed
qed simp

lemma system_step_keeps:
  assumes "system_step cli mkdirAll reg w w'" and "P (tables (supv w))"
  shows "P (tables (supv w'))"
  using assms(1)
proof cases
  case internal
  then show ?thesis using assms(2) by (rule controller_step_keeps)
next
  case (request uuid random r)
  then show ?thesis using keepsD [OF keeps_serve_request assms(2)] by simp
next
  case (start i)
  then show ?thesis using keepsD [OF keeps_start_created assms(2)] by simp
next
  case (signal waits rest es)
  then show ?thesis using keepsD [OF keeps_signals_Run [OF keeps_ret] assms(2)] by simp
next
  case (rescan auto)
  then show ?thesis using keepsD [OF keeps_recovery_Run assms(2)] by simp
qed

lemma system_run_keeps:
  "(system_step cli mkdirAll reg)\<^sup>*\<^sup>* w w' \<Longrightarrow> P (tables (supv w)) \<Longrightarrow> P (tables (supv w'))"
  by (induction rule: rtranclp_induct) (auto intro: system_step_keeps)

end

section \<open>What the startup keeps of the file\<close>

definition migrated :: "database \<Rightarrow> database" where
  "migrated d = d\<lparr>job_cols := job_cols d @ [''assigned_controller_id''],
     jobs := map (\<lambda>r. r(''assigned_controller_id'' := Null)) (jobs d)\<rparr>"

lemma Open_db:
  assumes "Open mkdirAll path disk env = Inr s"
  shows "db s = schemaSQL disk \<or> db s = migrated (schemaSQL disk)"
  using assms
  by (auto simp: Open_def migrate_def driver_call_def alter_add_column_def migrated_def split: option.splits if_splits sum.splits)

lemma find_job_migrated: "find_job i (migrated d) = map_option (\<lambda>r. r(''assigned_controller_id'' := Null)) (find_job i d)"
proof -
  have "find (has_id i) (map (\<lambda>r. r(''assigned_controller_id'' := Null)) rs) =
      map_option (\<lambda>r. r(''assigned_controller_id'' := Null)) (find (has_id i) rs)" for rs :: "row list"
    by (induction rs) (simp_all add: has_id_def)
  then show ?thesis by (simp add: find_job_def migrated_def)
qed

lemma state_of_migrated [simp]: "state_of (migrated d) i = state_of d i"
  by (simp add: state_of_def find_job_migrated option.map_comp comp_def split: option.splits)

lemma invariants_migrated:
  "db_inv d \<Longrightarrow> db_inv (migrated d)" "audit_inv d \<Longrightarrow> audit_inv (migrated d)"
proof -
  show "db_inv (migrated d)" if "db_inv d"
    using that by (fastforce simp: db_inv_def row_inv_def migrated_def has_id_def comp_def)
  have "life_events (migrated d) i = life_events d i" for i by (simp add: life_events_def migrated_def)
  then show "audit_inv (migrated d)" if "audit_inv d" using that by (simp add: audit_inv_def)
qed

lemma startup_ServingE:
  assumes "startup cli h = Serving s reg"
  obtains c st dc r where "c = Load (h_fmul h) (h_env h)"
    and "Open (h_mkdirAll h) (cc_DBPath c) (h_disk h) (h_driver h) = Inr st" and "docker_client h c = Inr dc"
    and "recovery_Run cli (h_mkdirAll h) True (new_supervisor h c st dc) = (r, s)" and "r \<noteq> Inl NilDereference"
    and "reg = load_registry (h_registry h)"
  using assms by (auto simp: startup_def Let_def split: sum.splits prod.splits if_splits)

lemma tables_new_supervisor [simp]:
  "sup_st (new_supervisor h c st dc) = st" "sup_docker (new_supervisor h c st dc) = dc"
  "engine (new_supervisor h c st dc) = h_engine h" "sup_pid (new_supervisor h c st dc) = h_pid h"
  "tracked (new_supervisor h c st dc) = []"
  by (simp_all add: new_supervisor_def sup_New_def SetLeaderCheck_def Let_def)

text \<open>What a job log keeps: every job stays, moves along the life cycle, and stays where it is once it is terminal.\<close>

definition log_continues :: "database \<Rightarrow> database \<Rightarrow> bool" where
  "log_continues d d' \<longleftrightarrow> (\<forall>i a. state_of d i = Some a \<longrightarrow>
     (\<exists>b. state_of d' i = Some b \<and> IsValidTransition\<^sup>*\<^sup>* a b \<and> (IsTerminal a \<longrightarrow> b = a)))"

lemma log_continues_refl: "log_continues d d"
  by (auto simp: log_continues_def)

lemma log_continues_trans: "log_continues d d' \<Longrightarrow> log_continues d' d'' \<Longrightarrow> log_continues d d''"
  unfolding log_continues_def by (metis (no_types, lifting) rtranclp_trans)

lemma run_keeps_the_log:
  assumes "startup cli h = Serving s reg" and "db_inv (schemaSQL (h_disk h))" and "audit_inv (schemaSQL (h_disk h))"
    and "(system_step cli mkdirAll reg)\<^sup>*\<^sup>* \<lparr>supv = s, inflight = []\<rparr> w"
  shows "db_inv (tables (supv w)) \<and> audit_inv (tables (supv w)) \<and>
     log_continues (schemaSQL (h_disk h)) (tables (supv w))"
proof -
  let ?d = "schemaSQL (h_disk h)"
  from assms(1) obtain c st dc r where opened: "Open (h_mkdirAll h) (cc_DBPath c) (h_disk h) (h_driver h) = Inr st"
    and run: "recovery_Run cli (h_mkdirAll h) True (new_supervisor h c st dc) = (r, s)" by (rule startup_ServingE)
  have same: "state_of (db st) i = state_of ?d i" for i using Open_db [OF opened] by auto
  have "db_inv (db st) \<and> audit_inv (db st)" using Open_db [OF opened] assms(2,3) invariants_migrated by auto
  with keepsD [OF tables.keeps_recovery_Run, of "new_supervisor h c st dc" cli "h_mkdirAll h" True] run
  have "db_inv (tables s) \<and> audit_inv (tables s)" by simp
  with tables.system_run_keeps [OF assms(4)] have inv: "db_inv (tables (supv w)) \<and> audit_inv (tables (supv w))" by simp
  have "\<exists>b. state_of (tables (supv w)) i = Some b \<and> IsValidTransition\<^sup>*\<^sup>* a b \<and> (IsTerminal a \<longrightarrow> b = a)"
    if "state_of ?d i = Some a" for i a
  proof -
    have "\<exists>b. state_of (tables s) i = Some b \<and> IsValidTransition\<^sup>*\<^sup>* a b"
      using keepsD [OF path.keeps_recovery_Run [of i a], of "new_supervisor h c st dc" cli "h_mkdirAll h" True] run that same by simp
    then have "\<exists>b. state_of (tables (supv w)) i = Some b \<and> IsValidTransition\<^sup>*\<^sup>* a b"
      using path.system_run_keeps [OF assms(4), of i a] by simp
    then show ?thesis using store_log.terminal_path [of a] by auto
  qed
  with inv show ?thesis unfolding log_continues_def by blast
qed

text \<open>
  the job log survives restarts and every run. Take any database file whose jobs and audit
  trail are in order, any startup on it that gets as far as serving requests, and any
  interleaving of requests, goroutines, recovery and signals after it, with whatever driver
  calls and Docker commands failing on the way: the tables keep their invariant and the audit
  trail its completeness, every job of the file is still there and has moved only along the
  documented life cycle, and a job that was terminal in the file is in the same state.
\<close>

theorem system_keeps_the_job_log:
  assumes "startup cli h = Serving s reg" and "db_inv (schemaSQL (h_disk h))" and "audit_inv (schemaSQL (h_disk h))"
    and "(system_step cli mkdirAll reg)\<^sup>*\<^sup>* \<lparr>supv = s, inflight = []\<rparr> w"
  shows "db_inv (tables (supv w)) \<and> audit_inv (tables (supv w)) \<and>
     (\<forall>i a. state_of (schemaSQL (h_disk h)) i = Some a \<longrightarrow>
        (\<exists>b. state_of (tables (supv w)) i = Some b \<and> IsValidTransition\<^sup>*\<^sup>* a b \<and> (IsTerminal a \<longrightarrow> b = a)))"
  using run_keeps_the_log [OF assms] by (simp add: log_continues_def)

text \<open>
  Many lives: a controller starts on the file the last one left and runs until it exits or is
  killed, at any point of any run; the next one may find another environment, process id and
  engine, with containers that ended or were removed in between. A startup that does not get
  to serving is no life. What SQLite has committed is in the file.
\<close>

inductive life :: "'d cli \<Rightarrow> database option \<Rightarrow> database option \<Rightarrow> bool" for cli where
  life: "startup cli h = Serving s reg \<Longrightarrow>
     (system_step cli mkdirAll reg)\<^sup>*\<^sup>* \<lparr>supv = s, inflight = []\<rparr> w \<Longrightarrow>
     life cli (h_disk h) (Some (tables (supv w)))"

lemma life_keeps_the_log:
  assumes "life cli d d'" and "db_inv (schemaSQL d) \<and> audit_inv (schemaSQL d)"
  shows "db_inv (schemaSQL d') \<and> audit_inv (schemaSQL d') \<and> log_continues (schemaSQL d) (schemaSQL d')"
  using assms(1)
proof cases
  case (life h s reg mkdirAll w)
  with run_keeps_the_log [of cli h s reg mkdirAll w] assms(2) show ?thesis by (simp add: schemaSQL_def)
qed

text \<open>
  C1: the job log survives any number of crashes. Controllers run one after the other on the same
  file, each stopped or killed at any point of any interleaving of requests, goroutines, recovery
  and signals, with any failures: the tables and the audit trail are in order at the end, no job
  is lost, each has moved only along the documented life cycle, and a job that was terminal
  in the file at first is in the same state in every later life.
\<close>

theorem job_log_across_crashes:
  assumes "(life cli)\<^sup>*\<^sup>* d d'" and "db_inv (schemaSQL d)" and "audit_inv (schemaSQL d)"
  shows "db_inv (schemaSQL d') \<and> audit_inv (schemaSQL d') \<and>
     (\<forall>i a. state_of (schemaSQL d) i = Some a \<longrightarrow>
        (\<exists>b. state_of (schemaSQL d') i = Some b \<and> IsValidTransition\<^sup>*\<^sup>* a b \<and> (IsTerminal a \<longrightarrow> b = a)))"
proof -
  have "db_inv (schemaSQL d') \<and> audit_inv (schemaSQL d') \<and> log_continues (schemaSQL d) (schemaSQL d')"
    using assms(1)
  proof (induction rule: rtranclp_induct)
    case base
    with assms(2,3) show ?case by (simp add: log_continues_refl)
  next
    case (step d1 d2)
    with life_keeps_the_log [OF step.hyps(2)] show ?case by (blast intro: log_continues_trans)
  qed
  then show ?thesis unfolding log_continues_def .
qed

section \<open>Restart\<close>

lemma Open_existing:
  assumes "quiet env" and "path = '':memory:'' \<or> ensureDir mkdirAll path = None"
    and "''assigned_controller_id'' \<in> set (job_cols d)"
  shows "Open mkdirAll path (Some d) env = Inr (env\<lparr>db := d, calls := calls env + 3\<rparr>)"
proof -
  have pre: "(if path \<noteq> '':memory:'' then ensureDir mkdirAll path else None) = None" using assms(2) by auto
  show ?thesis
    using assms(1,3) Contains_duplicate [of "''assigned_controller_id''"]
    unfolding Open_def pre by (simp add: migrate_def driver_call_def quiet_def alter_add_column_def schemaSQL_def)
qed

lemma scannable_frame [simp]: "scannable (t\<lparr>calls := n\<rparr>) = scannable t"
  by (simp add: scannable_def)

text \<open>
  A host on which the controller can start over: the driver works, the database is in order
  and of this version, and its directory exists or can be made.
\<close>

definition startable :: "'d host \<Rightarrow> database \<Rightarrow> bool" where
  "startable h d \<longleftrightarrow> h_disk h = Some d \<and> scannable ((h_driver h)\<lparr>db := d\<rparr>) \<and>
     (let p = cc_DBPath (Load (h_fmul h) (h_env h)) in p = '':memory:'' \<or> ensureDir (h_mkdirAll h) p = None)"

lemma startable_Open:
  assumes "startable h d"
  shows "Open (h_mkdirAll h) (cc_DBPath (Load (h_fmul h) (h_env h))) (h_disk h) (h_driver h) =
    Inr ((h_driver h)\<lparr>db := d, calls := calls (h_driver h) + 3\<rparr>)"
proof -
  have "quiet (h_driver h)" "''assigned_controller_id'' \<in> set (job_cols d)"
    using assms by (auto simp: startable_def scannable_def good_def quiet_def job_columns_def)
  then show ?thesis using Open_existing assms by (simp add: startable_def Let_def)
qed

lemma startup_recovers:
  assumes "startable h d" and "docker_client h (Load (h_fmul h) (h_env h)) = Inr True"
    and "docker_ListByLabel cli LabelJobID '''' (h_engine h) = (lr, e)"
  shows "\<exists>s. startup cli h = Serving s (load_registry (h_registry h)) \<and>
    (\<forall>r \<in> set (jobs d). \<exists>st. state_of (tables s) (job_ID (job_of r)) = Some st \<and> recovered True (seen_by lr) (job_of r) st)"
proof -
  let ?c = "Load (h_fmul h) (h_env h)" and ?st = "(h_driver h)\<lparr>db := d, calls := calls (h_driver h) + 3\<rparr>"
  let ?s = "new_supervisor h ?c ?st True"
  have pre: "scannable (sup_st ?s)" "sup_docker ?s" "docker_ListByLabel cli LabelJobID '''' (engine ?s) = (lr, e)"
    using assms(1,3) by (simp_all add: startable_def)
  show ?thesis
  proof (rule recovery_Run_effect [OF pre seen_by_def, of "h_mkdirAll h" True])
    fix res s'
    assume run: "recovery_Run cli (h_mkdirAll h) True ?s = (Inr res, s')"
      and st: "\<And>r. r \<in> set (jobs (tables ?s)) \<Longrightarrow>
        \<exists>st. state_of (tables s') (job_ID (job_of r)) = Some st \<and> recovered True (seen_by lr) (job_of r) st"
    have "startup cli h = Serving s' (load_registry (h_registry h))"
      using startable_Open [OF assms(1)] assms(2) run by (simp add: startup_def Let_def)
    with st show ?thesis by (intro exI [of _ s']) simp
  qed
qed


text \<open>
  C37: the mode without Docker cannot start. With \<open>JOBCTL_NO_DOCKER\<close> set, on a host where
  everything else works, the process panics in the recovery scan and never serves a request.
\<close>

theorem no_docker_mode_panics:
  assumes "startable h d" and "cc_NoDocker (Load (h_fmul h) (h_env h))"
  shows "startup cli h = Panicked"
proof -
  let ?c = "Load (h_fmul h) (h_env h)" and ?st = "(h_driver h)\<lparr>db := d, calls := calls (h_driver h) + 3\<rparr>"
  have "scannable ?st" using assms(1) by (simp add: startable_def)
  then have "fst (recovery_Run cli (h_mkdirAll h) True (new_supervisor h ?c ?st False)) = Inl NilDereference"
    by (intro recovery_panics_without_docker) simp_all
  then show ?thesis using startable_Open [OF assms(1)] assms(2)
    by (simp add: startup_def docker_client_def Let_def case_prod_beta)
qed

section \<open>A concrete host\<close>

definition demo_host :: "string list list host" where
  "demo_host = \<lparr>h_env = Map.empty, h_found = (\<lambda>_. True), h_mkdirAll = (\<lambda>_. None), h_disk = Some (tables demo_running),
     h_driver = sup_st demo_running, h_engine = [], h_pid = 43, h_order = (\<lambda>ks. ks), h_random = ''0a1b2c3d'',
     h_isLeader = (\<lambda>_. True), h_registry = Inl ''no such file'', h_fmul = (\<lambda>f u s. f * u div s)\<rparr>"

lemma demo_host_startable:
  "startable demo_host (tables demo_running)" "startable (demo_host\<lparr>h_env := [''JOBCTL_NO_DOCKER'' \<mapsto> ''1'']\<rparr>) (tables demo_running)"
  using demo_scannable by (simp_all add: startable_def demo_host_def ensureDir_def Let_def)

theorem no_docker_mode_panics_witness:
  "startup (demo_cli '''') (demo_host\<lparr>h_env := [''JOBCTL_NO_DOCKER'' \<mapsto> ''1'']\<rparr>) = Panicked"
  by (rule no_docker_mode_panics [OF demo_host_startable(2)]) (simp add: Load_def envBool_def Let_def ParseBool_def)

lemma demo_host_docker:
  "docker_client demo_host (Load (h_fmul demo_host) (h_env demo_host)) = Inr True"
  "docker_ListByLabel (demo_cli '''') LabelJobID '''' (h_engine demo_host) =
     (Inr [], [[''ps'', ''-a'', ''--filter'', ''label='' @ label_filter LabelJobID '''', ''--format'', ''{{.ID}}'']])"
proof -
  show "docker_client demo_host (Load (h_fmul demo_host) (h_env demo_host)) = Inr True"
    by (simp add: docker_client_def demo_host_def NewClient_def Load_def envBool_def Let_def)
  have "TrimSpace '''' = ''''" by code_simp
  then show "docker_ListByLabel (demo_cli '''') LabelJobID '''' (h_engine demo_host) =
     (Inr [], [[''ps'', ''-a'', ''--filter'', ''label='' @ label_filter LabelJobID '''', ''--format'', ''{{.ID}}'']])"
    by (simp add: docker_ListByLabel_def demo_cli_def demo_host_def)
qed


theorem system_keeps_the_job_log_witness:
  "\<exists>s w. startup (demo_cli '''') demo_host = Serving s Default \<and>
     (system_step (demo_cli '''') (\<lambda>_. None) Default)\<^sup>*\<^sup>* \<lparr>supv = s, inflight = []\<rparr> w \<and>
     db_inv (tables (supv w)) \<and> (\<exists>b. state_of (tables (supv w)) ''a'' = Some b \<and> IsValidTransition\<^sup>*\<^sup>* StateRunning b)"
proof -
  have reg: "load_registry (h_registry demo_host) = Default" by (simp add: load_registry_def LoadFile_def demo_host_def)
  obtain s where s: "startup (demo_cli '''') demo_host = Serving s Default"
    using startup_recovers [OF demo_host_startable(1) demo_host_docker] unfolding reg by blast
  let ?w = "\<lparr>supv = s, inflight = []\<rparr>"
  let ?w' = "?w\<lparr>supv := snd (serve_request (demo_cli '''') Default ''u'' ''r'' (demo_request ''POST'' ''/v1/jobs/a/cancel'' '''') (supv ?w))\<rparr>"
  have run: "(system_step (demo_cli '''') (\<lambda>_. None) Default)\<^sup>*\<^sup>* ?w ?w'"
    by (rule r_into_rtranclp, rule system_step.request)
  have d: "schemaSQL (h_disk demo_host) = tables demo_running" by (simp add: demo_host_def schemaSQL_def)
  have inv: "db_inv (schemaSQL (h_disk demo_host))" "audit_inv (schemaSQL (h_disk demo_host))"
    unfolding d by (rule demo_running_inv)+
  have "state_of (schemaSQL (h_disk demo_host)) ''a'' = Some StateRunning" unfolding d by (rule demo_running_facts(5))
  with system_keeps_the_job_log [OF s inv run] s run show ?thesis by blast
qed

text \<open>A controller that starts on the file and is killed at once.\<close>

theorem job_log_across_crashes_witness:
  "\<exists>d. life (demo_cli '''') (h_disk demo_host) (Some d) \<and> db_inv d \<and>
     (\<exists>b. state_of d ''a'' = Some b \<and> IsValidTransition\<^sup>*\<^sup>* StateRunning b)"
proof -
  have d: "schemaSQL (h_disk demo_host) = tables demo_running" by (simp add: demo_host_def schemaSQL_def)
  obtain s reg where "startup (demo_cli '''') demo_host = Serving s reg"
    using startup_recovers [OF demo_host_startable(1) demo_host_docker] by blast
  from life.life [OF this rtranclp.rtrancl_refl] obtain d' where l: "life (demo_cli '''') (h_disk demo_host) (Some d')" by blast
  from job_log_across_crashes [OF r_into_rtranclp [of "life (demo_cli '''')", OF l]] demo_running_inv demo_running_facts(5) l
  show ?thesis unfolding d by (fastforce simp: schemaSQL_def)
qed

end
