(* ===== verification/Races.thy ===== *)
theory Races
  imports Controller
begin

text \<open>
  Interleavings the code does not rule out. A cancellation asks the container to stop and then
  records \<open>cancelled\<close>; between the two the goroutine that follows the container's log sees it
  end. And an elector that is not scheduled keeps its flag when its lease has run out.
\<close>

section \<open>Cancelling and the end of the container\<close>

lemma cancel_stop_known:
  assumes "good (sup_st s)" and "sup_docker s" and "find_job i (tables s) = Some r" and "scanJob r = Inr job"
  shows "cancel_stop cli i s =
     (Inr (), s\<lparr>sup_st := (sup_st s)\<lparr>calls := Suc (calls (sup_st s))\<rparr>, engine := after_stop cli job s\<rparr>)"
  using GetJob_good [OF assms(1,3,4)] assms(2)
  by (simp add: cancel_stop_def bnd_def on_store_def with_state_def dropped_on_docker after_stop_def split: option.splits)

lemma stream_close_exited:
  assumes "good (sup_st s)" and "sup_docker s" and "find_job i (tables s) = Some r"
    and "state_of (tables s) i = Some st" and "active_state st"
    and "k < length (trackers s)" and "trackers s ! k = \<lparr>tr_jobID = i, tr_containerID = c, tr_phase = Scanning saw\<rparr>"
    and "docker_Inspect cli c (engine s) = (Inr insp, d)" and "\<not> insp_Running insp"
  shows "\<exists>s'. stream_step cli k LogEnd s = (Inr (), s') \<and> good (sup_st s') \<and> state_of (tables s') i = Some (exit_state insp saw)"
proof -
  let ?s = "s\<lparr>engine := d\<rparr>"
  have "good (sup_st ?s)" "sup_docker ?s" "find_job i (tables ?s) = Some r" "state_of (tables ?s) i = Some st" using assms(1-4) by simp_all
  from after_exit_run [OF this assms(5,9), of cli c saw] obtain t where
    t: "after_exit cli i c saw insp ?s = (Inr (), ?s\<lparr>sup_st := t, engine := snd (docker_Remove cli c (engine ?s))\<rparr>)"
      "good t" "state_of (db t) i = Some (exit_state insp saw)" by blast
  have "on_docker (docker_Inspect cli c) s = (Inr insp, ?s)" using assms(2,8) by (simp add: on_docker_def)
  with t assms(6,7) show ?thesis
    by (simp add: stream_step_def stream_close_def with_state_def handle_def bnd_def stream_done_def modify_def)
qed

lemma exit_state_final: "\<not> IsValidTransition (exit_state insp saw) StateCancelled"
  by (simp add: exit_state_def IsValidTransition_def validTransitions_def state_defs)

text \<open>
  C32: a cancellation can lose to its own stop. A job runs in a container that is being followed,
  on a store that works. A cancel request asks the container to stop; the container exits, and
  the goroutine that follows it records how (\<open>failed\<close> with the exit code of a terminated worker)
  before the request goes on. Then the transition to \<open>cancelled\<close> is refused: the request is
  answered with an error and the job is never \<open>cancelled\<close>.
\<close>

theorem cancel_loses_to_the_exit:
  fixes s :: "'d Supervisor"
  assumes "good (sup_st s)" and "sup_docker s" and "find_job i (tables s) = Some r" and "scanJob r = Inr job"
    and "active_state (job_State job)" and "job_ContainerID job = Some c"
    and "k < length (trackers s)" and "trackers s ! k = \<lparr>tr_jobID = i, tr_containerID = c, tr_phase = Scanning saw\<rparr>"
    and "docker_Inspect cli c (after_stop cli job s) = (Inr insp, d)" and "\<not> insp_Running insp"
  shows "\<exists>s1 s2 s3. cancel_stop cli i s = (Inr (), s1) \<and> stream_step cli k LogEnd s1 = (Inr (), s2) \<and>
    on_store (Transition i StateCancelled []) s2 =
      (Inl (StoreError (ErrInvalidTransition (exit_state insp saw) StateCancelled)), s3) \<and>
    state_of (tables s3) i = Some (exit_state insp saw)"
proof -
  let ?s1 = "s\<lparr>sup_st := (sup_st s)\<lparr>calls := Suc (calls (sup_st s))\<rparr>, engine := after_stop cli job s\<rparr>"
  have "good (sup_st ?s1)" "sup_docker ?s1" "find_job i (tables ?s1) = Some r" "state_of (tables ?s1) i = Some (job_State job)"
    using assms(1-3) state_of_scanned [OF assms(3,4)] by simp_all
  from stream_close_exited [OF this assms(5), of k c saw cli insp d] assms(7-10) obtain s2 where
    s2: "stream_step cli k LogEnd ?s1 = (Inr (), s2)" "good (sup_st s2)" "state_of (tables s2) i = Some (exit_state insp saw)" by auto
  from Transition_good_refused [OF s2(2) _ s2(3) exit_state_final, of "[]"] obtain t where
    "Transition i StateCancelled [] (sup_st s2) = (Inl (ErrInvalidTransition (exit_state insp saw) StateCancelled), t)" "db t = tables s2"
    by (auto simp: Transition_no_setters)
  then have "on_store (Transition i StateCancelled []) s2 =
      (Inl (StoreError (ErrInvalidTransition (exit_state insp saw) StateCancelled)), s2\<lparr>sup_st := t\<rparr>)"
    "state_of (tables (s2\<lparr>sup_st := t\<rparr>)) i = Some (exit_state insp saw)" using s2(3) by (simp_all add: on_store_def)
  with cancel_stop_known [OF assms(1-4)] s2(1) show ?thesis by blast
qed

text \<open>The worker was terminated by signal 15 and its log has ended.\<close>

theorem cancel_loses_to_the_exit_witness:
  "let s = set_phase 0 (Scanning False) demo_running; cli = demo_cli demo_exited
   in \<exists>s1 s2 s3 e. cancel_stop cli ''a'' s = (Inr (), s1) \<and> stream_step cli 0 LogEnd s1 = (Inr (), s2) \<and>
     on_store (Transition ''a'' StateCancelled []) s2 = (Inl e, s3) \<and> state_of (tables s3) ''a'' = Some StateFailed"
proof -
  let ?s = "set_phase 0 (Scanning False) demo_running"
  note f = demo_running_facts
  obtain r job where r: "find_job ''a'' (tables demo_running) = Some r" "scanJob r = Inr job" "job_State job = StateRunning"
    "job_ContainerID job = Some ''c1''" using f(12) by blast
  have "exit_state killed False = StateFailed" by (simp add: exit_state_def)
  moreover have "good (sup_st ?s)" "sup_docker ?s" "find_job ''a'' (tables ?s) = Some r" "active_state (job_State job)"
    using f(1,2) r(1,3) by (simp_all add: set_phase_def active_state_def)
  moreover have "0 < length (trackers ?s)" "trackers ?s ! 0 = \<lparr>tr_jobID = ''a'', tr_containerID = ''c1'', tr_phase = Scanning False\<rparr>"
    by (simp_all add: set_phase_def f(4))
  ultimately show ?thesis
    using cancel_loses_to_the_exit [of ?s "''a''" r job "''c1''" 0 False "demo_cli demo_exited", OF _ _ _ r(2) _ r(4) _ _ demo_inspect]
    unfolding Let_def by fastforce
qed

section \<open>A leader that is not scheduled\<close>

text \<open>
  Two electors with the default timings on the in-memory locker: \<open>A\<close> leads and is not scheduled
  for 31 seconds, in which its lease runs out and \<open>B\<close> acquires. Both have the flag that the
  supervisors ask for: the live lease in the theorems on the cluster is needed.
\<close>

definition paused_cluster :: "InMemoryLocker cluster" where
  "paused_cluster = react mem_Locker ''B'' Tick ((react mem_Locker ''A'' Tick
     (cluster_init [''A'', ''B''] ''cb:leader:lock'' (\<lambda>_. DefaultConfig) NewInMemoryLocker 0))\<lparr>time := 31 * Second\<rparr>)"

theorem paused_leader_keeps_its_flag:
  "(cluster_step mem_Locker)\<^sup>*\<^sup>* (cluster_init [''A'', ''B''] ''cb:leader:lock'' (\<lambda>_. DefaultConfig) NewInMemoryLocker 0) paused_cluster \<and>
   IsLeader (elector (nodes paused_cluster ''A'')) \<and> IsLeader (elector (nodes paused_cluster ''B''))"
proof (intro conjI)
  let ?a = "react mem_Locker ''A'' Tick (cluster_init [''A'', ''B''] ''cb:leader:lock'' (\<lambda>_. DefaultConfig) NewInMemoryLocker 0)"
  have "cluster_step mem_Locker (cluster_init [''A'', ''B''] ''cb:leader:lock'' (\<lambda>_. DefaultConfig) NewInMemoryLocker 0) ?a"
    by (rule cluster_step.act) (simp add: cluster_init_def)
  moreover have "cluster_step mem_Locker ?a (?a\<lparr>time := 31 * Second\<rparr>)"
    by (rule cluster_step.pass) (simp add: elector_eval Second_def DefaultConfig_def)
  moreover have "cluster_step mem_Locker (?a\<lparr>time := 31 * Second\<rparr>) paused_cluster"
    unfolding paused_cluster_def by (rule cluster_step.act) (simp add: elector_eval)
  ultimately show "(cluster_step mem_Locker)\<^sup>*\<^sup>* (cluster_init [''A'', ''B''] ''cb:leader:lock'' (\<lambda>_. DefaultConfig) NewInMemoryLocker 0) paused_cluster"
    by (meson rtranclp.rtrancl_into_rtrancl r_into_rtranclp)
  show "IsLeader (elector (nodes paused_cluster ''A''))" "IsLeader (elector (nodes paused_cluster ''B''))"
    by (simp_all add: paused_cluster_def elector_eval DefaultConfig_def Second_def)
qed

end
