(* ===== verification/Reaper.thy ===== *)
theory Reaper
  imports Recovery
begin

text \<open>
  Model of \<open>cmd/reaper\<close>, the command that lists the containers whose controller is gone and
  removes them on request. Signal 0 is a parameter: what \<open>kill(pid, 0)\<close> answers for a process id.
\<close>

section \<open>The command\<close>

text \<open>
  \<open>kill(2)\<close> with signal 0: the process exists, there is none, or it exists and belongs to somebody
  else.
\<close>

datatype signal_answer = Delivered | NoSuchProcess | NotPermitted

text \<open>\<open>pidAlive\<close>; \<open>os.FindProcess\<close> does not fail on this platform.\<close>

definition pidAlive :: "(int \<Rightarrow> signal_answer) \<Rightarrow> int \<Rightarrow> bool" where
  "pidAlive signal0 pid = (if pid \<le> 0 then False else signal0 pid = Delivered)"

record orphan_line =
  or_id :: string
  or_job_id :: string
  or_controller_pid :: int
  or_state :: string

definition label_pid :: "ContainerSummary \<Rightarrow> int" where
  "label_pid c = atoi_value (Atoi (label c LabelControllerPID))"

text \<open>
  The loop: it carries the lines written to standard output, the containers whose removal was
  reported as failed, the count, and the engine.
\<close>

record 'd reaping =
  rp_out :: "orphan_line list"
  rp_failed :: "(string \<times> docker_error) list"
  rp_orphans :: nat
  rp_engine :: 'd

definition reap_one :: "'d cli \<Rightarrow> (int \<Rightarrow> signal_answer) \<Rightarrow> bool \<Rightarrow> ContainerSummary \<Rightarrow> 'd reaping \<Rightarrow> 'd reaping" where
  "reap_one cli signal0 remove c st =
     (let pid = label_pid c in
      if pidAlive signal0 pid then st
      else
        let st = st\<lparr>rp_orphans := Suc (rp_orphans st),
              rp_out := rp_out st @ [\<lparr>or_id = sum_ID c, or_job_id = label c LabelJobID, or_controller_pid = pid, or_state = sum_State c\<rparr>]\<rparr>
        in if remove then
             case docker_Remove cli (sum_ID c) (rp_engine st) of
               (Inl e, d) \<Rightarrow> st\<lparr>rp_engine := d, rp_failed := rp_failed st @ [(sum_ID c, e)]\<rparr>
             | (Inr _, d) \<Rightarrow> st\<lparr>rp_engine := d\<rparr>
           else st)"

fun reap :: "'d cli \<Rightarrow> (int \<Rightarrow> signal_answer) \<Rightarrow> bool \<Rightarrow> ContainerSummary list \<Rightarrow> 'd reaping \<Rightarrow> 'd reaping" where
  "reap cli signal0 remove [] st = st"
| "reap cli signal0 remove (c # cs) st = reap cli signal0 remove cs (reap_one cli signal0 remove c st)"

text \<open>\<open>main\<close>: exit status 2 with an error, or the outcome of the loop.\<close>

definition reaper_main ::
  "'d cli \<Rightarrow> (string \<rightharpoonup> string) \<Rightarrow> (string \<Rightarrow> bool) \<Rightarrow> (int \<Rightarrow> signal_answer) \<Rightarrow> bool \<Rightarrow> 'd \<Rightarrow> docker_error + 'd reaping" where
  "reaper_main cli env found signal0 remove d =
     (case NewClient env found of
        Inl e \<Rightarrow> Inl e
      | Inr _ \<Rightarrow>
          (case docker_ListByLabel cli LabelJobID '''' d of
             (Inl e, _) \<Rightarrow> Inl e
           | (Inr containers, d') \<Rightarrow>
               Inr (reap cli signal0 remove containers \<lparr>rp_out = [], rp_failed = [], rp_orphans = 0, rp_engine = d'\<rparr>)))"

section \<open>What is reported and removed\<close>

text \<open>The containers nobody vouches for, and the commands that remove them one after the other.\<close>

definition orphaned :: "(int \<Rightarrow> signal_answer) \<Rightarrow> ContainerSummary \<Rightarrow> bool" where
  "orphaned signal0 c \<longleftrightarrow> label_pid c \<le> 0 \<or> signal0 (label_pid c) \<noteq> Delivered"

definition report :: "ContainerSummary \<Rightarrow> orphan_line" where
  "report c = \<lparr>or_id = sum_ID c, or_job_id = label c LabelJobID, or_controller_pid = label_pid c, or_state = sum_State c\<rparr>"

definition remove_all :: "'d cli \<Rightarrow> string list \<Rightarrow> 'd \<Rightarrow> 'd" where
  "remove_all cli ids d = foldl (\<lambda>d i. snd (docker_Remove cli i d)) d ids"

lemma reap_one_cases:
  "reap_one cli signal0 rm c st =
     (if orphaned signal0 c
      then st\<lparr>rp_out := rp_out st @ [report c], rp_orphans := Suc (rp_orphans st),
        rp_engine := (if rm then snd (docker_Remove cli (sum_ID c) (rp_engine st)) else rp_engine st),
        rp_failed := rp_failed st @ (case fst (docker_Remove cli (sum_ID c) (rp_engine st)) of
          Inl e \<Rightarrow> if rm then [(sum_ID c, e)] else [] | Inr _ \<Rightarrow> [])\<rparr>
      else st)"
  by (cases "docker_Remove cli (sum_ID c) (rp_engine st)"; cases "fst (docker_Remove cli (sum_ID c) (rp_engine st))")
    (auto simp: reap_one_def orphaned_def pidAlive_def report_def Let_def)

lemma reap_is_filter:
  "let st' = reap cli signal0 rm cs st; os = filter (orphaned signal0) cs in
   rp_out st' = rp_out st @ map report os \<and> rp_orphans st' = rp_orphans st + length os \<and>
   rp_engine st' = (if rm then remove_all cli (map sum_ID os) (rp_engine st) else rp_engine st)"
  by (induction cs arbitrary: st) (simp_all add: reap_one_cases remove_all_def Let_def)

text \<open>
  C37: the loop is a filter. The command reports exactly the containers, in the order of the
  listing, whose label is missing, malformed or not positive or names a process that signal 0
  does not reach; with \<open>--remove\<close> it issues one forced removal for each of them in that order,
  failed removals included, and for no other container; without it the engine is left as the
  listing left it.
\<close>

theorem reaper_takes_exactly_the_orphans:
  assumes "NewClient env found = Inr bin" and "docker_ListByLabel cli LabelJobID '''' d = (Inr cs, d1)"
  shows "\<exists>st. reaper_main cli env found signal0 rm d = Inr st \<and>
    (let os = filter (orphaned signal0) cs in
      rp_out st = map report os \<and> rp_orphans st = length os \<and>
      rp_engine st = (if rm then remove_all cli (map sum_ID os) d1 else d1))"
  using reap_is_filter [of cli signal0 rm cs "\<lparr>rp_out = [], rp_failed = [], rp_orphans = 0, rp_engine = d1\<rparr>"] assms
  by (simp add: reaper_main_def Let_def)

text \<open>
  A container whose controller, process 42, is alive and runs as another user: it counts as an
  orphan and is removed.
\<close>

theorem reaper_takes_exactly_the_orphans_witness:
  "\<exists>st d. reaper_main listing_cli Map.empty (\<lambda>_. True) (\<lambda>_. NotPermitted) True [] = Inr st \<and>
     map or_id (rp_out st) = [''c1''] \<and> rp_engine st = d @ [[''rm'', ''-f'', ''c1'']]"
proof -
  obtain d where l: "docker_ListByLabel listing_cli LabelJobID '''' [] = (Inr [demo_container], d)" using demo_listing by blast
  have "NewClient Map.empty (\<lambda>_. True) = Inr ''docker''" by (simp add: NewClient_def)
  from reaper_takes_exactly_the_orphans [OF this l, of "\<lambda>_. NotPermitted" True]
  show ?thesis
    by (auto simp: orphaned_def report_def remove_all_def docker_Remove_def simple_cmd_def listing_cli_def Let_def)
qed

end
