(* ===== verification/Bench.thy ===== *)
theory Bench
  imports Complex_Main GoLib
begin

text \<open>
  Model of the arithmetic of \<open>bench/concurrent\<close> (counting, percentiles, the scan of a worker's
  output) and of the gate \<open>bench/regress\<close>. A finite \<open>float64\<close> is the rational number it stands for;
  an operation on floats is the exact one followed by the rounding \<open>rnd\<close>, a parameter. The
  harness that runs the workers is the subject of theory \<open>BenchRun\<close>.
\<close>

section \<open>Percentiles\<close>

text \<open>An index out of range panics: \<open>None\<close>.\<close>

definition index :: "'a list \<Rightarrow> int \<Rightarrow> 'a option" where
  "index xs i = (if 0 \<le> i \<and> i < int (length xs) then Some (xs ! nat i) else None)"

definition percentile :: "(rat \<Rightarrow> rat) \<Rightarrow> rat list \<Rightarrow> rat \<Rightarrow> rat option" where
  "percentile rnd sortd p =
     (if sortd = [] then Some 0
      else
        let rank = rnd (p * rnd (of_nat (length sortd - 1)));
            lo = \<lfloor>rank\<rfloor>;
            hi = \<lceil>rank\<rceil>
        in if lo = hi then index sortd lo
           else case index sortd lo of None \<Rightarrow> None | Some a \<Rightarrow>
             (case index sortd hi of None \<Rightarrow> None | Some b \<Rightarrow>
               Some (rnd (a + rnd (rnd (b - a) * rnd (rank - of_int lo))))))"

fun maxF_from :: "rat \<Rightarrow> rat list \<Rightarrow> rat" where
  "maxF_from m [] = m"
| "maxF_from m (v # vs) = maxF_from (if v > m then v else m) vs"

definition maxF :: "rat list \<Rightarrow> rat" where
  "maxF xs = (case xs of [] \<Rightarrow> 0 | x # rest \<Rightarrow> maxF_from x rest)"

section \<open>Results of the jobs\<close>

record bench_result =
  br_JobID :: string
  br_LatNanos :: int
  br_Found :: int
  br_Err :: string

text \<open>The loop over the results: successes, failures, and the latencies of the successes in milliseconds.\<close>

fun tally :: "(rat \<Rightarrow> rat) \<Rightarrow> bench_result list \<Rightarrow> nat \<times> nat \<times> rat list \<Rightarrow> nat \<times> nat \<times> rat list" where
  "tally rnd [] acc = acc"
| "tally rnd (r # rs) (successes, failures, lats) =
     tally rnd rs (if br_Err r = '''' then (Suc successes, failures, lats @ [rnd (rnd (of_int (br_LatNanos r)) / 1000000)])
                   else (successes, Suc failures, lats))"

text \<open>\<open>parseFound\<close>: the digits after the last occurrence of the key that is not at the very end.\<close>

definition found_key :: string where
  "found_key = [CHR 0x22] @ ''found'' @ [CHR 0x22, CHR '':'']"

fun last_found :: "string \<Rightarrow> string option \<Rightarrow> string option" where
  "last_found [] acc = acc"
| "last_found (c # cs) acc =
     (if length found_key < length (c # cs)
      then last_found cs (if take (length found_key) (c # cs) = found_key then Some (drop (length found_key) (c # cs)) else acc)
      else acc)"

fun read_digits :: "int \<Rightarrow> string \<Rightarrow> int" where
  "read_digits v [] = v"
| "read_digits v (c # cs) =
     (if is_digit c then read_digits (wrap64 (wrap64 (v * 10) + (int (of_char c) - 48))) cs else v)"

definition parseFound :: "string \<Rightarrow> int" where
  "parseFound out = (case last_found out None of None \<Rightarrow> 0 | Some rest \<Rightarrow> read_digits 0 rest)"

section \<open>The gate\<close>

record baseline =
  MinJobsPerSec :: rat
  MaxP50Ms :: rat
  MaxP95Ms :: rat
  MaxP99Ms :: rat
  MaxFailures :: int

record latest =
  l_NJobs :: int
  l_Successes :: int
  l_Failures :: int
  l_JobsPerSec :: rat
  l_LatencyP50Ms :: rat
  l_LatencyP95Ms :: rat
  l_LatencyP99Ms :: rat

datatype violation =
  TooManyFailures int int | TooSlow rat rat | P50Over rat rat | P95Over rat rat | P99Over rat rat

definition violations :: "baseline \<Rightarrow> latest \<Rightarrow> violation list" where
  "violations bl lt =
     (if l_Failures lt > MaxFailures bl then [TooManyFailures (l_Failures lt) (MaxFailures bl)] else []) @
     (if MinJobsPerSec bl > 0 \<and> l_JobsPerSec lt < MinJobsPerSec bl then [TooSlow (l_JobsPerSec lt) (MinJobsPerSec bl)] else []) @
     (if MaxP50Ms bl > 0 \<and> l_LatencyP50Ms lt > MaxP50Ms bl then [P50Over (l_LatencyP50Ms lt) (MaxP50Ms bl)] else []) @
     (if MaxP95Ms bl > 0 \<and> l_LatencyP95Ms lt > MaxP95Ms bl then [P95Over (l_LatencyP95Ms lt) (MaxP95Ms bl)] else []) @
     (if MaxP99Ms bl > 0 \<and> l_LatencyP99Ms lt > MaxP99Ms bl then [P99Over (l_LatencyP99Ms lt) (MaxP99Ms bl)] else [])"

text \<open>\<open>main\<close>, on what reading and decoding the two files gave; the exit status.\<close>

definition regress_main :: "string + baseline \<Rightarrow> string + latest \<Rightarrow> nat" where
  "regress_main readBaseline readLatest =
     (case readBaseline of Inl _ \<Rightarrow> 2
      | Inr bl \<Rightarrow> (case readLatest of Inl _ \<Rightarrow> 2 | Inr lt \<Rightarrow> if violations bl lt \<noteq> [] then 1 else 0))"

section \<open>Properties\<close>

lemma index_Some: "0 \<le> i \<Longrightarrow> i < int (length xs) \<Longrightarrow> index xs i = Some (xs ! nat i)"
  by (simp add: index_def)

text \<open>The rank of a percentile lies within the list.\<close>

lemma rank_bounds:
  fixes p :: rat
  assumes "mono rnd" and "\<forall>n \<le> length xs. rnd (of_nat n) = of_nat n" and "0 \<le> p" and "p \<le> 1"
    and "rank = rnd (p * rnd (of_nat (length xs - 1)))"
  shows "0 \<le> rank" and "rank \<le> of_nat (length xs - 1)"
proof -
  let ?n = "of_nat (length xs - 1) :: rat"
  have n: "rnd ?n = ?n" "rnd 0 = 0" using assms(2) [rule_format, of "length xs - 1"] assms(2) [rule_format, of 0] by simp_all
  have "0 \<le> p * ?n" "p * ?n \<le> ?n" using assms(3,4) mult_right_mono [of p 1 ?n] by simp_all
  from monoD [OF assms(1) this(1)] monoD [OF assms(1) this(2)]
  show "0 \<le> rank" "rank \<le> ?n" unfolding assms(5) n by simp_all
qed

text \<open>
  C1: a percentile never panics. For a non-empty sorted list and \<open>0 \<le> p \<le> 1\<close>, with any rounding
  that is monotone and exact on the list's elements and on small numbers, both indices are
  within the list and the result is at least the element at the lower index; where the
  arithmetic is exact it is at most the element at the upper one.
\<close>

theorem percentile_in_range:
  assumes "sorted xs" and "xs \<noteq> []" and "0 \<le> p" and "p \<le> 1" and "mono rnd"
    and "\<forall>n \<le> length xs. rnd (of_nat n) = of_nat n" and "\<forall>x \<in> set xs. rnd x = x"
    and "rank = rnd (p * rnd (of_nat (length xs - 1)))"
  shows "\<exists>v. percentile rnd xs p = Some v \<and> nat \<lceil>rank\<rceil> < length xs \<and> xs ! nat \<lfloor>rank\<rfloor> \<le> v \<and>
    ((\<forall>x. rnd x = x) \<longrightarrow> v \<le> xs ! nat \<lceil>rank\<rceil>)"
proof -
  note r = rank_bounds [OF assms(5,6,3,4,8)]
  define lo hi where "lo = \<lfloor>rank\<rfloor>" and "hi = \<lceil>rank\<rceil>"
  have hi_n: "hi \<le> int (length xs - 1)" unfolding hi_def using r(2) by (simp add: ceiling_le_iff)
  have lo: "0 \<le> lo" "lo \<le> hi" unfolding lo_def hi_def using r(1) by (simp_all add: floor_le_ceiling)
  have len: "0 < length xs" using assms(2) by simp
  have ix: "index xs lo = Some (xs ! nat lo)" "index xs hi = Some (xs ! nat hi)"
    using lo hi_n len by (auto intro!: index_Some)
  have up: "nat hi < length xs" using lo hi_n len by linarith
  let ?a = "xs ! nat lo" and ?b = "xs ! nat hi"
  have ab: "?a \<le> ?b" using assms(1) lo up by (intro sorted_nth_mono) auto
  have fix_a: "rnd ?a = ?a" "rnd 0 = 0"
    using assms(7) lo up nth_mem [of "nat lo" xs] assms(6) [rule_format, of 0] by (auto simp: nat_less_iff)
  show ?thesis
  proof (cases "lo = hi")
    case True
    then have "percentile rnd xs p = Some ?a"
      using assms(2) ix(1) unfolding percentile_def assms(8) [symmetric] Let_def lo_def [symmetric] hi_def [symmetric] by simp
    with True up show ?thesis by (auto simp: lo_def hi_def)
  next
    case False
    let ?t = "rank - of_int lo"
    let ?v = "rnd (?a + rnd (rnd (?b - ?a) * rnd ?t))"
    have t: "0 \<le> ?t" "?t \<le> 1" unfolding lo_def by linarith+
    have nonneg: "0 \<le> x \<Longrightarrow> 0 \<le> rnd x" for x using monoD [OF assms(5), of 0 x] fix_a(2) by simp
    have "0 \<le> rnd (rnd (?b - ?a) * rnd ?t)" using nonneg ab t by simp
    then have "?a \<le> ?v" using monoD [OF assms(5), of ?a "?a + rnd (rnd (?b - ?a) * rnd ?t)"] fix_a(1) by simp
    moreover have "?v \<le> ?b" if "\<forall>x. rnd x = x"
      using that mult_left_mono [OF t(2), of "?b - ?a"] ab by simp
    moreover have "percentile rnd xs p = Some ?v"
      using assms(2) ix False
      unfolding percentile_def assms(8) [symmetric] Let_def lo_def [symmetric] hi_def [symmetric] by simp
    ultimately show ?thesis using up by (auto simp: lo_def hi_def)
  qed
qed

theorem percentile_in_range_witness:
  "\<exists>v. percentile (\<lambda>x. x) [10, 20, 40] (3 / 4) = Some v \<and> 20 \<le> v \<and> v \<le> 40"
proof -
  have "sorted [10, 20, 40 :: rat]" "mono (\<lambda>x :: rat. x)" by (simp_all add: mono_def)
  moreover have "\<lfloor>3 / 2 :: rat\<rfloor> = 1" "\<lceil>3 / 2 :: rat\<rceil> = 2"
    by (rule floor_unique, simp_all) (rule ceiling_unique, simp_all)
  ultimately show ?thesis
    using percentile_in_range [of "[10, 20, 40]" "3 / 4" "\<lambda>x. x" "3 / 2"] by simp
qed

lemma last_found_none:
  assumes "\<forall>k. take (length found_key) (drop k s) \<noteq> found_key"
  shows "last_found s acc = acc"
  using assms
proof (induction s arbitrary: acc)
  case (Cons c cs)
  have "take (length found_key) (c # cs) \<noteq> found_key" using Cons.prems [rule_format, of 0] by simp
  moreover have "\<forall>k. take (length found_key) (drop k cs) \<noteq> found_key"
    using Cons.prems [rule_format, of "Suc k" for k] by simp
  ultimately show ?case using Cons.IH by simp
qed simp

lemma last_found_append:
  "length found_key < length s \<Longrightarrow> \<exists>acc'. last_found (pre @ s) acc = last_found s acc'"
  by (induction pre arbitrary: acc) auto

lemma last_found_last:
  assumes "ds \<noteq> []" and "\<forall>k > 0. take (length found_key) (drop k (found_key @ ds)) \<noteq> found_key"
  shows "last_found (pre @ found_key @ ds) None = Some ds"
proof -
  obtain c cs where c: "found_key @ ds = c # cs" "c # cs = found_key @ ds" by (cases "found_key @ ds") (auto simp: found_key_def)
  have "\<forall>k. take (length found_key) (drop k cs) \<noteq> found_key" using assms(2) [rule_format, of "Suc k" for k] unfolding c(1) by simp
  moreover have "length found_key < length (c # cs)" using assms(1) unfolding c(2) by simp
  moreover have "take (length found_key) (c # cs) = found_key" "drop (length found_key) (c # cs) = ds" unfolding c(2) by simp_all
  ultimately have "last_found (found_key @ ds) acc = Some ds" for acc unfolding c(1) by (simp add: last_found_none)
  moreover obtain acc' where "last_found (pre @ found_key @ ds) None = last_found (found_key @ ds) acc'"
    using last_found_append [of "found_key @ ds" pre None] assms(1) by auto
  ultimately show ?thesis by simp
qed

lemma digits_grow: "n \<le> foldl (\<lambda>n c. 10 * n + digit_val c) n ds"
proof (induction ds arbitrary: n)
  case (Cons c cs)
  show ?case using Cons.IH [of "10 * n + digit_val c"] by simp
qed simp

lemma read_digits_val:
  assumes "list_all is_digit ds" and "rest = [] \<or> \<not> is_digit (hd rest)"
    and "foldl (\<lambda>n c. 10 * n + digit_val c) n ds < 9223372036854775808"
  shows "read_digits (int n) (ds @ rest) = int (foldl (\<lambda>n c. 10 * n + digit_val c) n ds)"
  using assms(1,3)
proof (induction ds arbitrary: n)
  case Nil
  show ?case using assms(2) by (cases rest) auto
next
  case (Cons c cs)
  let ?m = "10 * n + digit_val c"
  have m: "?m < 9223372036854775808" using digits_grow [of ?m cs] Cons.prems(2) by simp
  have "int (digit_val c) = int (of_char c) - 48" using Cons.prems(1) by (simp add: digit_val_def is_digit_def of_nat_diff)
  moreover have "int64_range (int n * 10)" "int64_range (int n * 10 + int (digit_val c))" using m by (auto simp: int64_range_def)
  ultimately have "wrap64 (wrap64 (int n * 10) + (int (of_char c) - 48)) = int ?m" by simp
  then show ?case using Cons.IH [of ?m] Cons.prems by simp
qed

text \<open>
  C1: the count is read back from a worker's output. Where the output ends with the key
  \<open>found\<close>, a number below \<open>2^63\<close> in decimal, and a rest that starts with no digit, and the key does
  not occur again later, \<open>parseFound\<close> returns the number, whatever came before.
\<close>

theorem parseFound_reads_the_last:
  assumes "n < 9223372036854775808" and "rest = [] \<or> \<not> is_digit (hd rest)"
    and "\<forall>k > 0. take (length found_key) (drop k (found_key @ nat_digits n @ rest)) \<noteq> found_key"
  shows "parseFound (pre @ found_key @ nat_digits n @ rest) = int n"
proof -
  have "foldl (\<lambda>n c. 10 * n + digit_val c) 0 (nat_digits n) = n" using nat_digits_val [of n] by (simp add: digits_val_def)
  with read_digits_val [OF nat_digits_digits assms(2), of 0 n] assms(1) have "read_digits 0 (nat_digits n @ rest) = int n" by simp
  moreover have "nat_digits n @ rest \<noteq> []" by simp
  ultimately show ?thesis using last_found_last [OF _ assms(3), of pre] by (simp add: parseFound_def)
qed

theorem parseFound_reads_the_last_witness:
  "parseFound (''junk'' @ found_key @ nat_digits 7 @ ''}'') = 7"
proof -
  have seven: "nat_digits 7 = ''7''" by code_simp
  have "take (length found_key) (drop k (found_key @ nat_digits 7 @ ''}'')) \<noteq> found_key" if "0 < k" for k
  proof (cases "k < 3")
    case True
    with that have "k = 1 \<or> k = 2" by auto
    then show ?thesis by (auto simp: found_key_def seven)
  next
    case False
    then have "length (take (length found_key) (drop k (found_key @ nat_digits 7 @ ''}''))) < length found_key"
      by (simp add: found_key_def seven)
    then show ?thesis by (metis less_irrefl)
  qed
  moreover have "\<not> is_digit (CHR ''}'')" by (simp add: is_digit_def)
  ultimately show ?thesis using parseFound_reads_the_last [of 7 "''}''" "''junk''"] by simp
qed

text \<open>The loops of the summary: every job is counted once, and the maximum is the maximum.\<close>

lemma tally_counts:
  "let (s, f, lats) = tally rnd rs (s0, f0, l0) in s + f = s0 + f0 + length rs \<and> length lats + s0 = length l0 + s"
proof (induction rs arbitrary: s0 f0 l0)
  case (Cons r rs)
  show ?case
    using Cons.IH [of "Suc s0" f0 "l0 @ [rnd (rnd (of_int (br_LatNanos r)) / 1000000)]"] Cons.IH [of s0 "Suc f0" l0] by (auto split: prod.splits)
qed simp

lemma maxF_from_Max: "maxF_from m xs = Max (insert m (set xs))"
proof (induction xs arbitrary: m)
  case (Cons v vs)
  have "Max (insert m (set (v # vs))) = Max (insert (max m v) (set vs))"
    by (cases "vs = []") (simp_all add: max.assoc)
  moreover have "(if v > m then v else m) = max m v" by auto
  ultimately show ?case using Cons.IH by simp
qed simp

lemma maxF_is_Max: "xs \<noteq> [] \<Longrightarrow> maxF xs = Max (set xs)"
  by (cases xs) (simp_all add: maxF_def maxF_from_Max)

text \<open>
  the gate passes exactly the runs that respect every floor: both files were read, the
  failures are within the limit, and each of the other four bounds that is positive holds.
\<close>

theorem regress_gate:
  "regress_main rb rl = 0 \<longleftrightarrow>
     (\<exists>bl lt. rb = Inr bl \<and> rl = Inr lt \<and> l_Failures lt \<le> MaxFailures bl \<and>
        (MinJobsPerSec bl \<le> 0 \<or> MinJobsPerSec bl \<le> l_JobsPerSec lt) \<and>
        (MaxP50Ms bl \<le> 0 \<or> l_LatencyP50Ms lt \<le> MaxP50Ms bl) \<and>
        (MaxP95Ms bl \<le> 0 \<or> l_LatencyP95Ms lt \<le> MaxP95Ms bl) \<and>
        (MaxP99Ms bl \<le> 0 \<or> l_LatencyP99Ms lt \<le> MaxP99Ms bl))"
  by (cases rb; cases rl) (auto simp: regress_main_def violations_def not_less not_le split: if_splits)

end
