(* ===== verification/BenchRun.thy ===== *)
theory BenchRun
  imports Bench
begin

text \<open>
  Model of the harness of \<open>bench/concurrent\<close>: the loop that hands out slots of the channel \<open>sem\<close> and
  the goroutines that take them, run a worker and store its result, as a step relation; and the
  summary made of the results, the files it is published in, and the exit status. What a worker does
  and how long it takes is the outcome of a step. The theorems bound the workers in flight, show
  that every run ends, that the summary accounts for every job, and that the gate of
  \<open>bench/regress\<close> judges the run that was published.
\<close>

section \<open>Flags\<close>

text \<open>The numbers of jobs and of slots are natural numbers; a negative one makes \<open>make\<close> panic.\<close>

record bench_flags =
  fl_njobs :: nat
  fl_conc :: nat
  fl_limit :: int
  fl_every :: int
  fl_workerB :: string
  fl_outDir :: string
  fl_failFast :: bool

definition default_flags :: bench_flags where
  "default_flags = \<lparr>fl_njobs = 1000, fl_conc = 64, fl_limit = 10000, fl_every = 1000,
     fl_workerB = ''worker/build/jobworker'', fl_outDir = ''bench/results'', fl_failFast = False\<rparr>"

section \<open>Slots and goroutines\<close>

definition bench_job_id :: "nat \<Rightarrow> string" where
  "bench_job_id i = (let ds = nat_digits i in ''bench-'' @ replicate (6 - length ds) (CHR ''0'') @ ds)"

definition bench_args :: "bench_flags \<Rightarrow> string \<Rightarrow> nat \<Rightarrow> string list" where
  "bench_args fl stateRoot i =
     [''--job-id'', bench_job_id i, ''--limit'', Itoa (fl_limit fl), ''--checkpoint-every'', Itoa (fl_every fl),
      ''--output-state'', PathJoin [stateRoot, bench_job_id i @ ''.bin'']]"

text \<open>A goroutine has a slot from its start to its end; it has not looked at \<open>failed\<close> yet, or runs its worker.\<close>

datatype gphase = Starting | Working

record harness =
  next_job :: nat
  in_flight :: "(nat \<times> gphase) list"
  results :: "bench_result list"
  failed :: nat

definition no_result :: bench_result where
  "no_result = \<lparr>br_JobID = '''', br_LatNanos = 0, br_Found = 0, br_Err = ''''\<rparr>"

definition harness_start :: "nat \<Rightarrow> harness" where
  "harness_start njobs = \<lparr>next_job = 0, in_flight = [], results = replicate njobs no_result, failed = 0\<rparr>"

text \<open>The result of a worker: its output, or the text of the error, which is never empty.\<close>

datatype worker_end = Output string | Error string

definition worker_result :: "nat \<Rightarrow> int \<Rightarrow> worker_end \<Rightarrow> bench_result" where
  "worker_result i lat w =
     \<lparr>br_JobID = bench_job_id i, br_LatNanos = lat,
      br_Found = (case w of Output out \<Rightarrow> parseFound out | Error _ \<Rightarrow> 0),
      br_Err = (case w of Output _ \<Rightarrow> '''' | Error e \<Rightarrow> e)\<rparr>"

text \<open>
  \<open>sem <- struct{}{}\<close> needs a free slot. With \<open>failFast\<close> a goroutine that starts after a failure
  marks its job as skipped. The slot is given back at the end.
\<close>

inductive harness_step :: "nat \<Rightarrow> nat \<Rightarrow> bool \<Rightarrow> harness \<Rightarrow> harness \<Rightarrow> bool" for njobs conc failFast where
  spawn: "next_job h < njobs \<Longrightarrow> length (in_flight h) < conc \<Longrightarrow>
     harness_step njobs conc failFast h
       (h\<lparr>next_job := Suc (next_job h), in_flight := in_flight h @ [(next_job h, Starting)]\<rparr>)"
| skip: "in_flight h = xs @ (i, Starting) # ys \<Longrightarrow> failFast \<Longrightarrow> failed h > 0 \<Longrightarrow>
     harness_step njobs conc failFast h
       (h\<lparr>in_flight := xs @ ys, results := (results h)[i := (results h ! i)\<lparr>br_Err := ''skipped''\<rparr>]\<rparr>)"
| work: "in_flight h = xs @ (i, Starting) # ys \<Longrightarrow> \<not> (failFast \<and> failed h > 0) \<Longrightarrow>
     harness_step njobs conc failFast h (h\<lparr>in_flight := xs @ (i, Working) # ys\<rparr>)"
| finish: "in_flight h = xs @ (i, Working) # ys \<Longrightarrow> w \<noteq> Error '''' \<Longrightarrow>
     harness_step njobs conc failFast h
       (h\<lparr>in_flight := xs @ ys, results := (results h)[i := worker_result i lat w],
          failed := failed h + (case w of Output _ \<Rightarrow> 0 | Error _ \<Rightarrow> 1)\<rparr>)"

inductive_cases harness_stepE: "harness_step njobs conc failFast h h'"

text \<open>\<open>wg.Wait()\<close> returns when the loop has ended and every goroutine is done.\<close>

definition harness_done :: "nat \<Rightarrow> harness \<Rightarrow> bool" where
  "harness_done njobs h \<longleftrightarrow> next_job h = njobs \<and> in_flight h = []"

section \<open>The summary\<close>

record bench_summary =
  bs_NJobs :: nat
  bs_PrimeLimit :: int
  bs_Concurrency :: nat
  bs_Successes :: nat
  bs_Failures :: nat
  bs_WallClockSec :: rat
  bs_JobsPerSec :: rat
  bs_P50 :: rat
  bs_P95 :: rat
  bs_P99 :: rat
  bs_Max :: rat
  bs_Mean :: rat
  bs_MaxRSSMB :: rat
  bs_NumGCBefore :: nat
  bs_NumGCAfter :: nat
  bs_WorkerBinary :: string
  bs_Timestamp :: string

text \<open>What the harness reads from the clock and the runtime: elapsed seconds, memory, collections and the time of day.\<close>

record measured =
  m_wall :: rat
  m_sys :: nat
  m_gcBefore :: nat
  m_gcAfter :: nat
  m_rfc3339 :: string
  m_ts :: string

definition mean_of :: "(rat \<Rightarrow> rat) \<Rightarrow> rat list \<Rightarrow> rat" where
  "mean_of rnd lats =
     (let total = foldl (\<lambda>m v. rnd (m + v)) 0 lats
      in if lats \<noteq> [] then rnd (total / rnd (of_nat (length lats))) else total)"

text \<open>
  The constants 0.50, 0.95 and 0.99 are the floats \<open>c50\<close>, \<open>c95\<close> and \<open>c99\<close>; the elapsed time is
  positive. \<open>None\<close> is a panic.
\<close>

definition summarise :: "(rat \<Rightarrow> rat) \<Rightarrow> rat \<Rightarrow> rat \<Rightarrow> rat \<Rightarrow> bench_flags \<Rightarrow> measured \<Rightarrow> bench_result list \<Rightarrow> bench_summary option" where
  "summarise rnd c50 c95 c99 fl m rs =
     (let (successes, failures, unsorted) = tally rnd rs (0, 0, []);
          lats = sort unsorted
      in case percentile rnd lats c50 of None \<Rightarrow> None | Some p50 \<Rightarrow>
        (case percentile rnd lats c95 of None \<Rightarrow> None | Some p95 \<Rightarrow>
        (case percentile rnd lats c99 of None \<Rightarrow> None | Some p99 \<Rightarrow>
          Some \<lparr>bs_NJobs = fl_njobs fl, bs_PrimeLimit = fl_limit fl, bs_Concurrency = fl_conc fl,
            bs_Successes = successes, bs_Failures = failures, bs_WallClockSec = m_wall m,
            bs_JobsPerSec = rnd (rnd (of_nat successes) / m_wall m), bs_P50 = p50, bs_P95 = p95, bs_P99 = p99,
            bs_Max = maxF lats, bs_Mean = mean_of rnd lats,
            bs_MaxRSSMB = rnd (rnd (of_nat (m_sys m)) / (1024 * 1024)), bs_NumGCBefore = m_gcBefore m,
            bs_NumGCAfter = m_gcAfter m, bs_WorkerBinary = fl_workerB fl, bs_Timestamp = m_rfc3339 m\<rparr>)))"

section \<open>Publishing the result\<close>

text \<open>
  \<open>writeJSON\<close> on the files of a directory: the text goes to a temporary file that is renamed. A
  failure of the encoder or of closing leaves some of the text there. The type of texts is a
  parameter, as is the encoder.
\<close>

type_synonym 'b files = "string \<rightharpoonup> 'b"

datatype 'b write_fault =
  CreateFails string | EncodeFails string 'b | CloseFails string 'b | RenameFails string

definition writeJSON :: "'b write_fault option \<Rightarrow> string \<Rightarrow> 'b \<Rightarrow> 'b files \<Rightarrow> string option \<times> 'b files" where
  "writeJSON fault path body fs =
     (let tmp = path @ ''.tmp'' in
      case fault of
        Some (CreateFails e) \<Rightarrow> (Some e, fs)
      | Some (EncodeFails e part) \<Rightarrow> (Some e, fs(tmp \<mapsto> part))
      | Some (CloseFails e part) \<Rightarrow> (Some e, fs(tmp \<mapsto> part))
      | Some (RenameFails e) \<Rightarrow> (Some e, fs(tmp \<mapsto> body))
      | None \<Rightarrow> (None, fs(tmp := None, path \<mapsto> body)))"

definition latest_path :: "bench_flags \<Rightarrow> string" where
  "latest_path fl = PathJoin [fl_outDir fl, ''latest.json'']"

text \<open>
  How the harness ends. \<open>os.Exit\<close> does not run the deferred removal of the temporary directory;
  returning from \<open>main\<close> and a panic do, which is the flag of an end.
\<close>

datatype bench_end = Exited nat bool | BenchPanic

text \<open>\<open>main\<close> from the results on: the summary, the two files and the exit status. \<open>enc\<close> is the text of a summary.\<close>

definition bench_report ::
  "(rat \<Rightarrow> rat) \<Rightarrow> rat \<Rightarrow> rat \<Rightarrow> rat \<Rightarrow> (bench_summary \<Rightarrow> 'b) \<Rightarrow> bench_flags \<Rightarrow> measured \<Rightarrow>
   'b write_fault option \<Rightarrow> 'b write_fault option \<Rightarrow> bench_result list \<Rightarrow> 'b files \<Rightarrow> bench_end \<times> 'b files" where
  "bench_report rnd c50 c95 c99 enc fl m fault1 fault2 rs fs =
     (case summarise rnd c50 c95 c99 fl m rs of
        None \<Rightarrow> (BenchPanic, fs)
      | Some smry \<Rightarrow>
          (case writeJSON fault1 (PathJoin [fl_outDir fl, m_ts m @ ''.json'']) (enc smry) fs of
             (Some _, fs1) \<Rightarrow> (Exited 2 False, fs1)
           | (None, fs1) \<Rightarrow>
               (let fs2 = snd (writeJSON fault2 (latest_path fl) (enc smry) fs1)
                in (if bs_Failures smry > 0 then Exited 1 False else Exited 0 True, fs2))))"

text \<open>\<open>main\<close> up to the loop: the worker binary, the output directory, the temporary directory.\<close>

definition bench_setup :: "string option \<Rightarrow> string option \<Rightarrow> string + string \<Rightarrow> nat + string" where
  "bench_setup stat mkdirAll mkdirTemp =
     (if stat \<noteq> None \<or> mkdirAll \<noteq> None then Inl 2 else case mkdirTemp of Inl _ \<Rightarrow> Inl 2 | Inr stateRoot \<Rightarrow> Inr stateRoot)"

section \<open>The invariant\<close>

text \<open>
  The goroutines hold distinct slots of jobs that were handed out, at most \<open>conc\<close> of them. A job
  that is not finished has no result yet; a finished one has its own, or was skipped after
  a failure.
\<close>

definition settled :: "bool \<Rightarrow> harness \<Rightarrow> nat \<Rightarrow> bool" where
  "settled failFast h i \<longleftrightarrow>
     (\<exists>lat w. w \<noteq> Error '''' \<and> results h ! i = worker_result i lat w) \<or>
     failFast \<and> failed h > 0 \<and> results h ! i = no_result\<lparr>br_Err := ''skipped''\<rparr>"

definition harness_inv :: "nat \<Rightarrow> nat \<Rightarrow> bool \<Rightarrow> harness \<Rightarrow> bool" where
  "harness_inv njobs conc failFast h \<longleftrightarrow>
     next_job h \<le> njobs \<and> length (results h) = njobs \<and> length (in_flight h) \<le> conc \<and>
     distinct (map fst (in_flight h)) \<and> (\<forall>i \<in> fst ` set (in_flight h). i < next_job h) \<and>
     (\<forall>i < njobs. if i < next_job h \<and> i \<notin> fst ` set (in_flight h) then settled failFast h i else results h ! i = no_result)"

lemma harness_inv_start: "harness_inv njobs conc failFast (harness_start njobs)"
  by (simp add: harness_inv_def harness_start_def)

lemma settled_frame:
  assumes "settled f h i" and "failed h \<le> failed h'" and "results h' ! i = results h ! i"
  shows "settled f h' i"
  using assms by (auto simp: settled_def)

text \<open>A goroutine that ends leaves its job settled and every other job as it was.\<close>

lemma harness_inv_end:
  assumes inv: "harness_inv n c f h" and fl: "in_flight h = xs @ (i, p) # ys"
    and h': "next_job h' = next_job h" "in_flight h' = xs @ ys" "failed h \<le> failed h'" "results h' = (results h)[i := r]"
    and own: "settled f h' i"
  shows "harness_inv n c f h'"
proof -
  have i: "i < next_job h" "i < n" "length (results h) = n" using inv fl by (auto simp: harness_inv_def)
  have dist: "i \<notin> fst ` set (xs @ ys)" "fst ` set (in_flight h) = insert i (fst ` set (xs @ ys))"
    using inv fl by (auto simp: harness_inv_def)
  have "if j < next_job h' \<and> j \<notin> fst ` set (in_flight h') then settled f h' j else results h' ! j = no_result" if "j < n" for j
  proof (cases "j = i")
    case True
    then show ?thesis using own i dist h' by simp
  next
    case False
    have old: "if j < next_job h \<and> j \<notin> fst ` set (in_flight h) then settled f h j else results h ! j = no_result"
      using inv that by (auto simp: harness_inv_def)
    have same: "results h' ! j = results h ! j" using False h'(4) by simp
    show ?thesis using old False dist h'(1,2) settled_frame [OF _ h'(3) same] same by (auto split: if_splits)
  qed
  moreover have "next_job h' \<le> n" "length (results h') = n" "length (in_flight h') \<le> c"
    "distinct (map fst (in_flight h'))" "\<forall>j \<in> fst ` set (in_flight h'). j < next_job h'"
    using inv fl h' by (auto simp: harness_inv_def)
  ultimately show ?thesis unfolding harness_inv_def by blast
qed

lemma harness_inv_step:
  assumes "harness_step n c f h h'" and inv: "harness_inv n c f h"
  shows "harness_inv n c f h'"
  using assms(1)
proof cases
  case spawn
  have "settled f h' i = settled f h i" for i using spawn by (simp add: settled_def)
  with spawn inv show ?thesis unfolding harness_inv_def by (auto simp: less_Suc_eq split: if_splits)
next
  case (skip xs i ys)
  have i: "i < n" "length (results h) = n" "results h ! i = no_result" using inv skip(2) by (auto simp: harness_inv_def)
  show ?thesis
    by (rule harness_inv_end [OF inv skip(2)]) (use skip i in \<open>auto simp: settled_def\<close>)
next
  case (work xs i ys)
  have "fst ` set (in_flight h') = fst ` set (in_flight h)" "map fst (in_flight h') = map fst (in_flight h)"
    "length (in_flight h') = length (in_flight h)" using work by auto
  moreover have "settled f h' j = settled f h j" for j using work by (simp add: settled_def)
  ultimately show ?thesis using inv work unfolding harness_inv_def by simp
next
  case (finish xs i ys w lat)
  have i: "i < n" "length (results h) = n" using inv finish(2) by (auto simp: harness_inv_def)
  show ?thesis
    by (rule harness_inv_end [OF inv finish(2)]) (use finish i in \<open>auto simp: settled_def\<close>)
qed

lemma harness_inv_run:
  "(harness_step n c f)\<^sup>*\<^sup>* (harness_start n) h \<Longrightarrow> harness_inv n c f h"
  by (induction rule: rtranclp_induct) (auto intro: harness_inv_start harness_inv_step)

section \<open>Properties\<close>

text \<open>
  C38: the harness never has more workers in flight than it was told, each goroutine works on a
  job of its own, and a job's result is written once: it is untouched until the job's
  goroutine ends and afterwards is that of its own worker, or the mark of a job skipped after a
  failure.
\<close>

theorem harness_bounds_the_workers:
  assumes "(harness_step n c f)\<^sup>*\<^sup>* (harness_start n) h"
  shows "length (in_flight h) \<le> c \<and> distinct (map fst (in_flight h)) \<and> length (results h) = n \<and>
    (\<forall>i < n. if i < next_job h \<and> i \<notin> fst ` set (in_flight h) then settled f h i else results h ! i = no_result)"
  using harness_inv_run [OF assms] by (simp add: harness_inv_def)

lemma harness_two_steps:
  "(harness_step 2 1 False)\<^sup>*\<^sup>* (harness_start 2)
     \<lparr>next_job = 1, in_flight = [(0, Working)], results = [no_result, no_result], failed = 0\<rparr>"
proof (rule rtranclp.rtrancl_into_rtrancl [OF r_into_rtranclp])
  show "harness_step 2 1 False (harness_start 2) \<lparr>next_job = 1, in_flight = [(0, Starting)], results = [no_result, no_result], failed = 0\<rparr>"
    using harness_step.spawn [of "harness_start 2" 2 1 False] by (simp add: harness_start_def numeral_2_eq_2)
  show "harness_step 2 1 False \<lparr>next_job = 1, in_flight = [(0, Starting)], results = [no_result, no_result], failed = 0\<rparr>
      \<lparr>next_job = 1, in_flight = [(0, Working)], results = [no_result, no_result], failed = 0\<rparr>"
    using harness_step.work [of "\<lparr>next_job = 1, in_flight = [(0, Starting)], results = [no_result, no_result], failed = 0\<rparr>" "[]" 0 "[]" False 2 1]
    by simp
qed

theorem harness_bounds_the_workers_witness:
  "let h = \<lparr>next_job = 1, in_flight = [(0, Working)], results = [no_result, no_result], failed = 0\<rparr>
   in (harness_step 2 1 False)\<^sup>*\<^sup>* (harness_start 2) h \<and> length (in_flight h) \<le> 1 \<and> results h ! 1 = no_result"
  using harness_bounds_the_workers [OF harness_two_steps] harness_two_steps by (simp add: Let_def)

text \<open>Every step uses up some of what is left to do.\<close>

fun phase_left :: "gphase \<Rightarrow> nat" where
  "phase_left Starting = 2"
| "phase_left Working = 1"

definition work_left :: "nat \<Rightarrow> harness \<Rightarrow> nat" where
  "work_left n h = 3 * (n - next_job h) + sum_list (map (phase_left \<circ> snd) (in_flight h))"

lemma work_left_step: "harness_step n c f h h' \<Longrightarrow> work_left n h' < work_left n h"
  by (cases rule: harness_step.cases, assumption) (auto simp: work_left_def)

lemma work_left_run: "(harness_step n c f ^^ k) h h' \<Longrightarrow> k + work_left n h' \<le> work_left n h"
proof (induction k arbitrary: h')
  case (Suc k)
  then obtain g where "(harness_step n c f ^^ k) h g" "harness_step n c f g h'" by auto
  with Suc.IH [of g] work_left_step [of n c f g h'] show ?case by simp
qed simp

lemma harness_progress:
  assumes "0 < c" and "harness_inv n c f h" and "\<not> harness_done n h"
  shows "\<exists>h'. harness_step n c f h h'"
proof (cases "in_flight h")
  case Nil
  with assms have "next_job h < n" "length (in_flight h) < c" by (auto simp: harness_done_def harness_inv_def)
  then show ?thesis by (blast intro: harness_step.spawn)
next
  case (Cons p ps)
  obtain i ph where p: "p = (i, ph)" by (cases p)
  show ?thesis
  proof (cases ph)
    case Starting
    with Cons p have fl: "in_flight h = [] @ (i, Starting) # ps" by simp
    then show ?thesis using harness_step.skip [OF fl] harness_step.work [OF fl] by blast
  next
    case Working
    with Cons p have fl: "in_flight h = [] @ (i, Working) # ps" by simp
    have "Output '''' \<noteq> Error ''''" by simp
    from harness_step.finish [OF fl this] show ?thesis by blast
  qed
qed

text \<open>
  C39: the harness finishes. With at least one slot, whatever the workers do as long as each of
  them ends, a run takes at most three steps per job, and the only states in which nothing can
  happen are those where all jobs have been handed out and every goroutine has returned.
\<close>

theorem harness_finishes:
  assumes "0 < c" and "(harness_step n c f ^^ k) (harness_start n) h"
  shows "k \<le> 3 * n \<and> ((\<exists>h'. harness_step n c f h h') \<or> harness_done n h)"
proof -
  have "(harness_step n c f)\<^sup>*\<^sup>* (harness_start n) h" using assms(2) by (rule relpowp_imp_rtranclp)
  from harness_progress [OF assms(1) harness_inv_run [OF this]] work_left_run [OF assms(2)]
  show ?thesis by (auto simp: work_left_def harness_start_def)
qed

theorem harness_finishes_witness:
  "\<exists>h'. harness_step 2 1 False (harness_start 2) h'"
  using harness_finishes [where c = 1 and n = 2 and f = False and k = 0 and h = "harness_start 2"] by (auto simp: harness_done_def harness_start_def)

text \<open>Without a slot the first send on the channel blocks for ever.\<close>

lemma harness_without_slots: "0 < n \<Longrightarrow> \<not> harness_done n (harness_start n) \<and> (\<nexists>h'. harness_step n 0 f (harness_start n) h')"
  by (auto simp: harness_done_def harness_start_def elim!: harness_stepE)

section \<open>The summary accounts for every job\<close>

definition latency_ms :: "(rat \<Rightarrow> rat) \<Rightarrow> bench_result \<Rightarrow> rat" where
  "latency_ms rnd r = rnd (rnd (of_int (br_LatNanos r)) / 1000000)"

lemma tally_result:
  "tally rnd rs (s, f, l) =
     (s + length (filter (\<lambda>r. br_Err r = '''') rs), f + length (filter (\<lambda>r. br_Err r \<noteq> '''') rs),
      l @ map (latency_ms rnd) (filter (\<lambda>r. br_Err r = '''') rs))"
  by (induction rs arbitrary: s f l) (simp_all add: latency_ms_def)

lemma percentile_some:
  assumes "sorted xs" and "0 \<le> p" and "p \<le> 1" and "mono rnd"
    and "\<forall>n \<le> length xs. rnd (of_nat n) = of_nat n" and "\<forall>x \<in> set xs. rnd x = x"
  shows "\<exists>v. percentile rnd xs p = Some v"
  using percentile_in_range [OF assms(1) _ assms(2-6) refl] by (cases "xs = []") (auto simp: percentile_def)

lemma settled_ok:
  assumes "settled f h i"
  shows "br_Err (results h ! i) = '''' \<longleftrightarrow> (\<exists>lat out. results h ! i = worker_result i lat (Output out))"
proof -
  have out: "br_Err (worker_result i lat (Output out)) = ''''" for lat out by (simp add: worker_result_def)
  have "\<exists>lat out. results h ! i = worker_result i lat (Output out)" if ok: "br_Err (results h ! i) = ''''"
  proof -
    from assms ok obtain lat w where w: "w \<noteq> Error ''''" "results h ! i = worker_result i lat w" by (auto simp: settled_def)
    with ok show ?thesis by (cases w) (auto simp: worker_result_def)
  qed
  with out show ?thesis by metis
qed

text \<open>A file that is written through a temporary one is the old one or the new one, never a part of it.\<close>

lemma writeJSON_whole:
  "snd (writeJSON fault path body fs) path = (if fst (writeJSON fault path body fs) = None then Some body else fs path)"
  by (auto simp: writeJSON_def Let_def split: option.splits write_fault.splits)

lemma summary_of_a_run:
  assumes "(harness_step n c f)\<^sup>*\<^sup>* (harness_start n) h" and "harness_done n h"
    and "mono rnd" and "\<forall>m \<le> n. rnd (of_nat m) = of_nat m" and "\<forall>x. rnd (rnd x) = rnd x"
    and "0 \<le> c50 \<and> c50 \<le> 1" and "0 \<le> c95 \<and> c95 \<le> 1" and "0 \<le> c99 \<and> c99 \<le> 1"
  shows "\<exists>s. summarise rnd c50 c95 c99 fl m (results h) = Some s \<and> bs_Successes s + bs_Failures s = n \<and>
    (bs_Failures s = 0 \<longleftrightarrow> (\<forall>i < n. \<exists>lat out. results h ! i = worker_result i lat (Output out)))"
proof -
  let ?ok = "filter (\<lambda>r. br_Err r = '''') (results h)" and ?bad = "filter (\<lambda>r. br_Err r \<noteq> '''') (results h)"
  let ?lats = "sort (map (latency_ms rnd) ?ok)"
  have inv: "length (results h) = n" "\<And>i. i < n \<Longrightarrow> settled f h i"
    using harness_inv_run [OF assms(1)] assms(2) by (auto simp: harness_inv_def harness_done_def)
  have sum: "length ?ok + length ?bad = n" using sum_length_filter_compl [of "\<lambda>r. br_Err r = ''''" "results h"] inv(1) by simp
  then have len: "length ?lats \<le> n" by simp
  have fixed: "\<forall>x \<in> set ?lats. rnd x = x" using assms(5) by (auto simp: latency_ms_def)
  have nats: "\<forall>m \<le> length ?lats. rnd (of_nat m) = of_nat m" using assms(4) len by auto
  obtain p50 p95 p99 where p: "percentile rnd ?lats c50 = Some p50" "percentile rnd ?lats c95 = Some p95" "percentile rnd ?lats c99 = Some p99"
    using percentile_some [OF sorted_sort _ _ assms(3) nats fixed] assms(6-8) by blast
  have "?bad = [] \<longleftrightarrow> (\<forall>i < n. br_Err (results h ! i) = '''')" using inv(1) by (auto simp: filter_empty_conv all_set_conv_all_nth)
  then have "?bad = [] \<longleftrightarrow> (\<forall>i < n. \<exists>lat out. results h ! i = worker_result i lat (Output out))"
    using settled_ok [OF inv(2)] by auto
  moreover obtain s where "summarise rnd c50 c95 c99 fl m (results h) = Some s" "bs_Successes s = length ?ok" "bs_Failures s = length ?bad"
    using p by (simp add: summarise_def tally_result Let_def)
  ultimately show ?thesis using sum by (intro exI [of _ s]) auto
qed

definition gate_reads :: "('b \<Rightarrow> string + latest) \<Rightarrow> string \<Rightarrow> 'b files \<Rightarrow> string + latest" where
  "gate_reads dec path fs = (case fs path of None \<Rightarrow> Inl ''no such file'' | Some t \<Rightarrow> dec t)"

text \<open>The fields of a summary that the gate decodes, by their names in the file.\<close>

definition latest_of :: "bench_summary \<Rightarrow> latest" where
  "latest_of s = \<lparr>l_NJobs = int (bs_NJobs s), l_Successes = int (bs_Successes s), l_Failures = int (bs_Failures s),
     l_JobsPerSec = bs_JobsPerSec s, l_LatencyP50Ms = bs_P50 s, l_LatencyP95Ms = bs_P95 s, l_LatencyP99Ms = bs_P99 s\<rparr>"

text \<open>
  C40: the bench and its gate. At the end of a run that has no fault in writing its files, the
  percentiles exist, successes and failures add up to the number of jobs, and the harness
  exits with 0 exactly when every job has the result of a worker that succeeded (a job skipped
  by \<open>-fail-fast\<close> counts as a failure). The gate that reads the file the run left, with a baseline that
  tolerates no failure, passes only a run that exited with 0.
\<close>

theorem gate_judges_the_run:
  assumes "(harness_step (fl_njobs fl) (fl_conc fl) (fl_failFast fl))\<^sup>*\<^sup>* (harness_start (fl_njobs fl)) h"
    and "harness_done (fl_njobs fl) h"
    and "mono rnd" and "\<forall>m \<le> fl_njobs fl. rnd (of_nat m) = of_nat m" and "\<forall>x. rnd (rnd x) = rnd x"
    and "0 \<le> c50 \<and> c50 \<le> 1" and "0 \<le> c95 \<and> c95 \<le> 1" and "0 \<le> c99 \<and> c99 \<le> 1"
    and "\<forall>s. dec (enc s) = Inr (latest_of s)" and "MaxFailures bl \<le> 0"
  shows "\<exists>s fs' code. summarise rnd c50 c95 c99 fl m (results h) = Some s \<and>
    bench_report rnd c50 c95 c99 enc fl m None None (results h) fs = (Exited code (code = 0), fs') \<and>
    bs_Successes s + bs_Failures s = fl_njobs fl \<and>
    (code = 0 \<longleftrightarrow> (\<forall>i < fl_njobs fl. \<exists>lat out. results h ! i = worker_result i lat (Output out))) \<and>
    gate_reads dec (latest_path fl) fs' = Inr (latest_of s) \<and>
    (regress_main (Inr bl) (gate_reads dec (latest_path fl) fs') = 0 \<longrightarrow> code = 0)"
proof -
  from summary_of_a_run [OF assms(1-8), where fl = fl and m = m] obtain s where s: "summarise rnd c50 c95 c99 fl m (results h) = Some s"
    "bs_Successes s + bs_Failures s = fl_njobs fl"
    "bs_Failures s = 0 \<longleftrightarrow> (\<forall>i < fl_njobs fl. \<exists>lat out. results h ! i = worker_result i lat (Output out))"
    by (elim exE conjE)
  let ?code = "if bs_Failures s > 0 then 1 else 0 :: nat"
  obtain fs' where fs': "bench_report rnd c50 c95 c99 enc fl m None None (results h) fs = (Exited ?code (?code = 0), fs')"
    "fs' (latest_path fl) = Some (enc s)"
    using s(1) by (simp add: bench_report_def writeJSON_def Let_def)
  have read: "gate_reads dec (latest_path fl) fs' = Inr (latest_of s)" using fs'(2) assms(9) by (simp add: gate_reads_def)
  moreover have "bs_Failures s = 0" if "regress_main (Inr bl) (Inr (latest_of s)) = 0"
    using that assms(10) by (auto simp: regress_main_def violations_def latest_of_def split: if_splits)
  ultimately show ?thesis using s fs'(1) by (intro exI [of _ s] exI [of _ fs'] exI [of _ ?code]) auto
qed

text \<open>One job on one slot, whose worker found 25 primes.\<close>

definition demo_flags :: bench_flags where
  "demo_flags = default_flags\<lparr>fl_njobs := 1, fl_conc := 1\<rparr>"

definition demo_done :: harness where
  "demo_done = \<lparr>next_job = 1, in_flight = [], results = [worker_result 0 5000000 (Output (found_key @ ''25''))], failed = 0\<rparr>"

lemma demo_harness_run: "(harness_step 1 1 False)\<^sup>*\<^sup>* (harness_start 1) demo_done"
proof -
  let ?h1 = "\<lparr>next_job = 1, in_flight = [(0, Starting)], results = [no_result], failed = 0\<rparr>"
  let ?h2 = "?h1\<lparr>in_flight := [(0, Working)]\<rparr>"
  have "harness_step 1 1 False (harness_start 1) ?h1"
    using harness_step.spawn [of "harness_start 1" 1 1 False] by (simp add: harness_start_def)
  moreover have "harness_step 1 1 False ?h1 ?h2" using harness_step.work [of ?h1 "[]" 0 "[]" False 1 1] by simp
  moreover have "harness_step 1 1 False ?h2 demo_done"
    using harness_step.finish [of ?h2 "[]" 0 "[]" "Output (found_key @ ''25'')" 1 1 False 5000000] by (simp add: demo_done_def)
  ultimately show ?thesis by (meson rtranclp.rtrancl_into_rtrancl r_into_rtranclp)
qed

theorem gate_judges_the_run_witness:
  "\<exists>fs'. bench_report (\<lambda>x. x) (1 / 2) (19 / 20) (99 / 100) (\<lambda>s. s) demo_flags
      \<lparr>m_wall = 2, m_sys = 0, m_gcBefore = 0, m_gcAfter = 0, m_rfc3339 = '''', m_ts = ''now''\<rparr> None None (results demo_done) Map.empty = (Exited 0 True, fs')"
proof -
  have run: "(harness_step (fl_njobs demo_flags) (fl_conc demo_flags) (fl_failFast demo_flags))\<^sup>*\<^sup>* (harness_start (fl_njobs demo_flags)) demo_done"
    "harness_done (fl_njobs demo_flags) demo_done"
    using demo_harness_run by (simp_all add: demo_flags_def default_flags_def harness_done_def demo_done_def)
  have ok: "\<forall>i < fl_njobs demo_flags. \<exists>lat out. results demo_done ! i = worker_result i lat (Output out)"
    by (auto simp: demo_flags_def demo_done_def)
  from gate_judges_the_run [OF run, where rnd = "\<lambda>x. x" and dec = "\<lambda>s. Inr (latest_of s)" and enc = "\<lambda>s. s" and ?c50.0 = "1 / 2"
      and ?c95.0 = "19 / 20" and ?c99.0 = "99 / 100" and bl = "\<lparr>MinJobsPerSec = 0, MaxP50Ms = 0, MaxP95Ms = 0, MaxP99Ms = 0, MaxFailures = 0\<rparr>"
      and m = "\<lparr>m_wall = 2, m_sys = 0, m_gcBefore = 0, m_gcAfter = 0, m_rfc3339 = '''', m_ts = ''now''\<rparr>" and fs = Map.empty]
  show ?thesis using ok by (auto simp: mono_def)
qed

text \<open>
  The error of the second write is dropped: the harness exits with 0 and the gate reads the
  result of an earlier run.
\<close>

lemma stale_result_is_judged:
  assumes "summarise rnd c50 c95 c99 fl m rs = Some s" and "bs_Failures s = 0"
    and "PathJoin [fl_outDir fl, m_ts m @ ''.json''] \<noteq> latest_path fl"
    and "PathJoin [fl_outDir fl, m_ts m @ ''.json''] @ ''.tmp'' \<noteq> latest_path fl"
  shows "fst (bench_report rnd c50 c95 c99 enc fl m None (Some w) rs fs) = Exited 0 True"
    and "snd (bench_report rnd c50 c95 c99 enc fl m None (Some w) rs fs) (latest_path fl) = fs (latest_path fl)"
proof -
  let ?p = "PathJoin [fl_outDir fl, m_ts m @ ''.json'']"
  have r: "bench_report rnd c50 c95 c99 enc fl m None (Some w) rs fs =
     (Exited 0 True, snd (writeJSON (Some w) (latest_path fl) (enc s) (fs(?p @ ''.tmp'' := None, ?p \<mapsto> enc s))))"
    using assms(1,2) by (simp add: bench_report_def writeJSON_def [of None] Let_def)
  have no: "(fst (writeJSON (Some w) p b g) = None) = False" for p b g by (auto simp: writeJSON_def Let_def split: write_fault.splits)
  show "fst (bench_report rnd c50 c95 c99 enc fl m None (Some w) rs fs) = Exited 0 True"
    and "snd (bench_report rnd c50 c95 c99 enc fl m None (Some w) rs fs) (latest_path fl) = fs (latest_path fl)"
    unfolding r using assms(3,4) by (simp_all add: writeJSON_whole no)
qed

end
