(* ===== verification/Checkpoint.thy ===== *)
theory Checkpoint
  imports Prelude "HOL-Library.Word"
begin

text \<open>
  Model of \<open>internal/checkpoint\<close>: the binary checkpoint format of the worker, its decoder
  \<open>Parse\<close> and its encoder \<open>Encode\<close>. Buffers are lists of 8-bit words; a slice or an index out of
  range, which panics in Go, is the error \<open>Panic\<close> here, so that the absence of panics is a
  theorem. \<open>hash/crc32\<close> is modelled by the bitwise (reflected) CRC-32 of the IEEE polynomial.
\<close>

unbundle bit_operations_syntax

section \<open>Byte order\<close>

type_synonym byte = "8 word"

text \<open>\<open>encoding/binary\<close>, little endian: the value of a list of bytes, and the bytes of a value.\<close>

fun le_word :: "byte list \<Rightarrow> 'a::len word" where
  "le_word [] = 0"
| "le_word (b # bs) = ucast b OR push_bit 8 (le_word bs)"

definition le_bytes :: "nat \<Rightarrow> 'a::len word \<Rightarrow> byte list" where
  "le_bytes n w = map (\<lambda>i. ucast (drop_bit (8 * i) w)) [0..<n]"

section \<open>The checksum\<close>

definition crc_bit :: "32 word \<Rightarrow> 32 word" where
  "crc_bit c = (if bit c 0 then drop_bit 1 c XOR 0xEDB88320 else drop_bit 1 c)"

definition crc_byte :: "byte \<Rightarrow> 32 word \<Rightarrow> 32 word" where
  "crc_byte b c = (crc_bit ^^ 8) (c XOR ucast b)"

definition ChecksumIEEE :: "byte list \<Rightarrow> 32 word" where
  "ChecksumIEEE bs = NOT (fold crc_byte bs (NOT 0))"

section \<open>The format\<close>

definition Magic :: "32 word" where "Magic = 0x4A4F4243"
definition Version :: "32 word" where "Version = 2"
definition RecentCap :: nat where "RecentCap = 32"

definition minLen :: nat where
  "minLen = 4 + 4 + 8 * 3 + 1 + 4 + 4"

datatype checkpoint_error =
  ErrShort | ErrMagic | ErrVersion | ErrCRC | ErrRecentCap | ErrTrailing | ErrRecentSize | Panic

record sieve_state =
  Limit :: "64 word"
  Next :: "64 word"
  Found :: "64 word"
  SeededTwo :: bool
  Recent :: "64 word list"

text \<open>Slices, the readers of \<open>encoding/binary\<close> and indexing, with the panics of the language.\<close>

definition slice :: "nat \<Rightarrow> nat \<Rightarrow> byte list \<Rightarrow> checkpoint_error + byte list" where
  "slice lo hi b = (if lo \<le> hi \<and> hi \<le> length b then Inr (take (hi - lo) (drop lo b)) else Inl Panic)"

definition index_byte :: "byte list \<Rightarrow> nat \<Rightarrow> checkpoint_error + byte" where
  "index_byte b i = (if i < length b then Inr (b ! i) else Inl Panic)"

definition Uint32 :: "byte list \<Rightarrow> checkpoint_error + 32 word" where
  "Uint32 b = (if length b < 4 then Inl Panic else Inr (le_word (take 4 b)))"

definition Uint64 :: "byte list \<Rightarrow> checkpoint_error + 64 word" where
  "Uint64 b = (if length b < 8 then Inl Panic else Inr (le_word (take 8 b)))"

definition PutUint32 :: "32 word \<Rightarrow> byte list" where
  "PutUint32 v = le_bytes 4 v"

definition PutUint64 :: "64 word \<Rightarrow> byte list" where
  "PutUint64 v = le_bytes 8 v"

text \<open>The loop of \<open>Parse\<close> that reads the ring of recent primes, \<open>n\<close> values from \<open>off\<close> on.\<close>

fun read_recent :: "byte list \<Rightarrow> nat \<Rightarrow> nat \<Rightarrow> checkpoint_error + 64 word list" where
  "read_recent p off 0 = Inr []"
| "read_recent p off (Suc n) =
     andThen (slice off (length p) p) (\<lambda>b.
     andThen (Uint64 b) (\<lambda>v.
     andThen (read_recent p (off + 8) n) (\<lambda>vs. Inr (v # vs))))"

definition Parse :: "byte list \<Rightarrow> checkpoint_error + sieve_state" where
  "Parse buf =
     (if length buf < minLen then Inl ErrShort
      else
        let crcOff = length buf - 4 in
        andThen (slice crcOff (length buf) buf) (\<lambda>tl4.
        andThen (Uint32 tl4) (\<lambda>want.
        andThen (slice 0 crcOff buf) (\<lambda>p.
        if want \<noteq> ChecksumIEEE p then Inl ErrCRC
        else
        andThen (andThen (slice 0 4 p) Uint32) (\<lambda>magic.
        if magic \<noteq> Magic then Inl ErrMagic
        else
        andThen (andThen (slice 4 8 p) Uint32) (\<lambda>version.
        if version \<noteq> Version then Inl ErrVersion
        else
        andThen (andThen (slice 8 16 p) Uint64) (\<lambda>limit.
        andThen (andThen (slice 16 24 p) Uint64) (\<lambda>nxt.
        andThen (andThen (slice 24 32 p) Uint64) (\<lambda>found.
        andThen (index_byte p 32) (\<lambda>seeded.
        andThen (andThen (slice 33 37 p) Uint32) (\<lambda>count.
        if unat count > RecentCap then Inl ErrRecentCap
        else
        let bodyOff = 37; wantBytes = unat count * 8 in
        if bodyOff + wantBytes \<noteq> length p then
          (if bodyOff + wantBytes > length p then Inl ErrRecentSize else Inl ErrTrailing)
        else
        andThen (read_recent p bodyOff (unat count)) (\<lambda>recent.
        Inr \<lparr>Limit = limit, Next = nxt, Found = found, SeededTwo = (seeded \<noteq> 0), Recent = recent\<rparr>))))))))))))"

text \<open>\<open>Encode\<close>; its only error reports the length of the ring.\<close>

definition Encode :: "sieve_state \<Rightarrow> nat + byte list" where
  "Encode s =
     (if length (Recent s) > RecentCap then Inl (length (Recent s))
      else
        let out = PutUint32 Magic @ PutUint32 Version @
            PutUint64 (Limit s) @ PutUint64 (Next s) @ PutUint64 (Found s) @
            [if SeededTwo s then 1 else 0] @
            PutUint32 (of_nat (length (Recent s))) @ concat (map PutUint64 (Recent s))
        in Inr (out @ PutUint32 (ChecksumIEEE out)))"

section \<open>Bytes and words\<close>

lemma length_le_bytes [simp]: "length (le_bytes n w) = n"
  by (simp add: le_bytes_def)

lemma bit_le_word:
  "bit (le_word bs :: 'a::len word) k \<longleftrightarrow> k < LENGTH('a) \<and> k < 8 * length bs \<and> bit (bs ! (k div 8)) (k mod 8)"
proof (induction bs arbitrary: k)
  case Nil
  then show ?case by simp
next
  case (Cons b bs)
  show ?case
  proof (cases "k < 8")
    case True
    then show ?thesis by (auto simp: bit_simps Cons.IH)
  next
    case False
    then have k: "k div 8 = Suc ((k - 8) div 8)" "k mod 8 = (k - 8) mod 8" by (simp_all add: le_div_geq le_mod_geq)
    have "\<not> bit b k" using False by (auto dest: bit_imp_le_length)
    then show ?thesis using False by (auto simp: bit_simps Cons.IH k)
  qed
qed

lemma le_word_le_bytes:
  assumes "LENGTH('a) \<le> 8 * n"
  shows "le_word (le_bytes n w) = (w :: 'a::len word)"
proof (rule bit_eqI)
  fix k
  assume k: "possible_bit TYPE('a word) k"
  then have "k < LENGTH('a)" by simp
  with assms have "k < 8 * n" by simp
  then have "k div 8 < n" by (simp add: less_mult_imp_div_less mult.commute)
  then show "bit (le_word (le_bytes n w) :: 'a word) k = bit w k"
    using \<open>k < LENGTH('a)\<close> \<open>k < 8 * n\<close> by (simp add: bit_le_word le_bytes_def bit_simps)
qed

lemma le_bytes_le_word:
  assumes "LENGTH('a) = 8 * length bs"
  shows "le_bytes (length bs) (le_word bs :: 'a::len word) = bs"
proof (rule nth_equalityI)
  fix i
  assume "i < length (le_bytes (length bs) (le_word bs :: 'a word))"
  then have i: "i < length bs" by simp
  have "bit (ucast (drop_bit (8 * i) (le_word bs :: 'a word)) :: byte) k = bit (bs ! i) k" if "k < 8" for k
    using that i assms by (simp add: bit_simps bit_le_word)
  then have "ucast (drop_bit (8 * i) (le_word bs :: 'a word)) = bs ! i"
    by (intro bit_word_eqI) simp
  then show "le_bytes (length bs) (le_word bs :: 'a word) ! i = bs ! i" using i by (simp add: le_bytes_def)
qed simp

lemma length_Put [simp]: "length (PutUint32 v) = 4" "length (PutUint64 w) = 8"
  by (simp_all add: PutUint32_def PutUint64_def)

lemma le_word_Put [simp]: "le_word (PutUint32 v) = v" "le_word (PutUint64 w) = w"
  by (simp_all add: PutUint32_def PutUint64_def le_word_le_bytes)

lemma Put_le_word:
  "length bs = 4 \<Longrightarrow> PutUint32 (le_word bs) = bs" "length bs = 8 \<Longrightarrow> PutUint64 (le_word bs) = bs"
  using le_bytes_le_word [of bs, where 'a = 32] le_bytes_le_word [of bs, where 'a = 64]
  by (simp_all add: PutUint32_def PutUint64_def)

section \<open>Error detection\<close>

text \<open>
  The top bit of the polynomial is set and a shifted register has its top bit clear, so the
  register before a step can be recovered from the one after it: every step is injective, and
  a difference in the register never disappears.
\<close>

lemma xor_cancel [simp]:
  fixes a b c :: "32 word"
  shows "a XOR c = b XOR c \<longleftrightarrow> a = b" and "c XOR a = c XOR b \<longleftrightarrow> a = b"
proof -
  have "(x XOR c) XOR c = x" for x by (simp add: xor.assoc)
  then have "a XOR c = b XOR c \<Longrightarrow> a = b" by metis
  then show *: "a XOR c = b XOR c \<longleftrightarrow> a = b" by blast
  then show "c XOR a = c XOR b \<longleftrightarrow> a = b" by (simp add: xor.commute)
qed

lemma crc_bit_top: "bit (crc_bit c) 31 \<longleftrightarrow> bit c 0"
proof -
  have "bit (0xEDB88320 :: 32 word) 31" by (simp add: bit_numeral_rec)
  moreover have "\<not> bit (drop_bit 1 c) 31" by (auto simp: bit_simps dest: bit_imp_le_length)
  ultimately show ?thesis by (auto simp: crc_bit_def bit_simps)
qed

lemma word_eq_drop_bit:
  fixes c d :: "32 word"
  assumes "drop_bit 1 c = drop_bit 1 d" and "bit c 0 \<longleftrightarrow> bit d 0"
  shows "c = d"
proof (rule bit_eqI)
  fix n
  show "bit c n \<longleftrightarrow> bit d n"
  proof (cases n)
    case 0
    then show ?thesis using assms(2) by simp
  next
    case (Suc m)
    then show ?thesis using assms(1) by (metis bit_drop_bit_eq comp_apply plus_1_eq_Suc)
  qed
qed

lemma inj_crc_bit: "inj crc_bit"
proof (rule injI)
  fix c d
  assume eq: "crc_bit c = crc_bit d"
  then have b: "bit c 0 \<longleftrightarrow> bit d 0" using crc_bit_top by metis
  then have "drop_bit 1 c = drop_bit 1 d"
    using eq by (auto simp: crc_bit_def split: if_splits)
  with b show "c = d" by (rule word_eq_drop_bit [rotated])
qed

lemma crc_bits_eq: "(crc_bit ^^ n) c = (crc_bit ^^ n) d \<longleftrightarrow> c = d"
  using inj_fn [OF inj_crc_bit, of n] by (rule inj_eq)

lemma inj_crc_byte: "crc_byte b c = crc_byte b d \<longleftrightarrow> c = d"
  by (simp add: crc_byte_def crc_bits_eq)

lemma ucast_byte_inj:
  fixes a b :: byte
  assumes "(ucast a :: 32 word) = ucast b"
  shows "a = b"
proof (rule bit_word_eqI)
  fix n
  assume "n < LENGTH(8)"
  moreover have "bit (ucast a :: 32 word) n = bit (ucast b :: 32 word) n" using assms by simp
  ultimately show "bit a n = bit b n" by (simp add: bit_ucast_iff)
qed

lemma crc_byte_differs: "crc_byte a c = crc_byte b c \<longleftrightarrow> a = b"
  using ucast_byte_inj by (auto simp: crc_byte_def crc_bits_eq)

lemma inj_crc_fold: "fold crc_byte bs c = fold crc_byte bs d \<longleftrightarrow> c = d"
  by (induction bs arbitrary: c d) (simp_all add: inj_crc_byte)

text \<open>
  Up to four bytes enter the register before the first of their bits leaves it: processing
  them is the same as adding them at once and shifting.
\<close>

lemma bit_push1: "bit (push_bit 1 y) n \<longleftrightarrow> 1 \<le> n \<and> n < 32 \<and> bit y (n - 1)" for y :: "32 word"
  unfolding bit_push_bit_iff possible_bit_word by auto

lemma crc_bit_push:
  assumes "\<not> bit y 31"
  shows "crc_bit (x XOR push_bit 1 y) = crc_bit x XOR y"
proof -
  have "drop_bit 1 (push_bit 1 y) = y"
  proof (rule bit_word_eqI)
    fix n
    assume "n < LENGTH(32)"
    then show "bit (drop_bit 1 (push_bit 1 y)) n = bit y n"
      using assms unfolding bit_drop_bit_eq comp_apply bit_push1 by (cases "n = 31") auto
  qed
  then have "drop_bit 1 (x XOR push_bit 1 y) = drop_bit 1 x XOR y" by (simp only: drop_bit_xor)
  moreover have "bit (x XOR push_bit 1 y) 0 = bit x 0" unfolding bit_xor_iff bit_push1 by simp
  moreover have "(d XOR y) XOR w = (d XOR w) XOR y" for d w :: "32 word" by (simp add: ac_simps)
  ultimately show ?thesis unfolding crc_bit_def by (simp only: if_distrib [where f = "\<lambda>z. z XOR y"])
qed

lemma crc_bits_push:
  assumes "k \<le> 32" and "\<forall>n. 32 - k \<le> n \<longrightarrow> \<not> bit y n"
  shows "(crc_bit ^^ k) (x XOR push_bit k y) = (crc_bit ^^ k) x XOR y"
  using assms
proof (induction k arbitrary: y)
  case 0
  then show ?case by simp
next
  case (Suc k)
  have "\<forall>n. 32 - k \<le> n \<longrightarrow> \<not> bit (push_bit 1 y) n"
  proof (intro allI impI)
    fix n
    assume "32 - k \<le> n"
    then have "n = 0 \<or> 32 - Suc k \<le> n - 1" using Suc.prems(1) by linarith
    then show "\<not> bit (push_bit 1 y) n" using Suc.prems(2) unfolding bit_push1 by auto
  qed
  moreover have "push_bit (Suc k) y = push_bit k (push_bit 1 y)" by simp
  ultimately have "(crc_bit ^^ k) (x XOR push_bit (Suc k) y) = (crc_bit ^^ k) x XOR push_bit 1 y"
    using Suc.IH [of "push_bit 1 y"] Suc.prems(1) by simp
  moreover have "\<not> bit y 31" using Suc.prems by simp
  ultimately show ?case using crc_bit_push [of y "(crc_bit ^^ k) x"] by simp
qed

lemma fold_crc_block:
  assumes "length bs \<le> 4"
  shows "fold crc_byte bs c = (crc_bit ^^ (8 * length bs)) (c XOR le_word bs)"
  using assms
proof (induction bs arbitrary: c)
  case Nil
  then show ?case by simp
next
  case (Cons b bs)
  have "\<forall>n. 32 - 8 \<le> n \<longrightarrow> \<not> bit (le_word bs :: 32 word) n"
    using Cons.prems by (auto simp: bit_le_word)
  then have "crc_byte b c XOR le_word bs = (crc_bit ^^ 8) ((c XOR ucast b) XOR push_bit 8 (le_word bs))"
    unfolding crc_byte_def using crc_bits_push [of 8 "le_word bs" "c XOR ucast b"] by simp
  moreover have "(c XOR ucast b) XOR push_bit 8 (le_word bs) = c XOR le_word (b # bs)"
  proof -
    have "ucast b XOR push_bit 8 (le_word bs) = (le_word (b # bs) :: 32 word)"
      by (rule bit_word_eqI) (auto simp: bit_simps dest: bit_imp_le_length)
    then show ?thesis by (simp add: xor.assoc)
  qed
  ultimately show ?case
    using Cons funpow_add [of "8 * length bs" 8 crc_bit] by (simp add: add.commute [of 8] del: le_word.simps)
qed

lemma le_word_eq:
  assumes "length v = length w" and "length w \<le> 4"
  shows "(le_word v :: 32 word) = le_word w \<longleftrightarrow> v = w"
proof
  assume eq: "(le_word v :: 32 word) = le_word w"
  show "v = w"
  proof (rule nth_equalityI)
    fix i
    assume i: "i < length v"
    show "v ! i = w ! i"
    proof (rule bit_word_eqI)
      fix n
      assume n: "n < LENGTH(8)"
      have "bit (le_word v :: 32 word) (8 * i + n) = bit (le_word w :: 32 word) (8 * i + n)" using eq by simp
      then show "bit (v ! i) n = bit (w ! i) n" using i n assms by (simp add: bit_le_word)
    qed
  qed (rule assms(1))
qed simp

lemma fold_crc_burst:
  assumes "length v = length w" and "length w \<le> 4" and "v \<noteq> w"
  shows "fold crc_byte (xs @ v @ ys) c \<noteq> fold crc_byte (xs @ w @ ys) c"
  using assms by (simp add: inj_crc_fold fold_crc_block crc_bits_eq le_word_eq)

text \<open>
  The residue: a buffer carries its checksum in the last four bytes exactly when running the
  register over all of it gives one fixed value.
\<close>

lemma crc_residue:
  assumes "length t = 4"
  shows "le_word t = ChecksumIEEE p \<longleftrightarrow> fold crc_byte (p @ t) (NOT 0) = (crc_bit ^^ 32) (NOT 0)"
proof -
  let ?r = "fold crc_byte p (NOT 0)"
  have "fold crc_byte (p @ t) (NOT 0) = (crc_bit ^^ 32) (NOT 0) \<longleftrightarrow> ?r XOR le_word t = NOT 0"
    using assms by (simp add: fold_crc_block crc_bits_eq)
  also have "\<dots> \<longleftrightarrow> le_word t = NOT ?r"
  proof
    assume "?r XOR le_word t = NOT 0"
    then have "?r XOR (?r XOR le_word t) = ?r XOR NOT 0" by simp
    then show "le_word t = NOT ?r" by (simp add: xor.assoc [symmetric])
  qed simp
  finally show ?thesis by (simp add: ChecksumIEEE_def)
qed

section \<open>Decoding\<close>

lemma take_drop_step: "drop n p = take k (drop n p) @ drop (n + k) p"
  by (metis add.commute append_take_drop_id drop_drop)

lemma read_recent_total:
  assumes "off + 8 * n \<le> length p"
  shows "\<exists>vs. read_recent p off n = Inr vs \<and> length vs = n \<and> concat (map PutUint64 vs) = take (8 * n) (drop off p)"
  using assms
proof (induction n arbitrary: off)
  case 0
  then show ?case by simp
next
  case (Suc n)
  from Suc.prems have "(off + 8) + 8 * n \<le> length p" by simp
  from Suc.IH [OF this] obtain vs where vs: "read_recent p (off + 8) n = Inr vs" "length vs = n"
    "concat (map PutUint64 vs) = take (8 * n) (drop (off + 8) p)" by blast
  let ?b = "take 8 (drop off p)"
  have "take (8 * Suc n) (drop off p) = ?b @ take (8 * n) (drop (off + 8) p)"
    by (simp add: take_add add.commute)
  moreover have "PutUint64 (le_word ?b) = ?b" using Suc.prems by (intro Put_le_word) simp
  ultimately show ?case using vs Suc.prems by (simp add: slice_def Uint64_def)
qed

text \<open>
  The decoder without its bounds checks: the chain of tests that remains once the length has
  been checked. No slice is out of range.
\<close>

definition fields :: "byte list \<Rightarrow> 64 word list \<Rightarrow> sieve_state" where
  "fields p vs = \<lparr>Limit = le_word (take 8 (drop 8 p)), Next = le_word (take 8 (drop 16 p)),
     Found = le_word (take 8 (drop 24 p)), SeededTwo = (p ! 32 \<noteq> 0), Recent = vs\<rparr>"

lemma Parse_checks:
  assumes "length buf = length p + 4" and "take (length p) buf = p" and "37 \<le> length p"
  shows "Parse buf =
     (if le_word (drop (length p) buf) \<noteq> ChecksumIEEE p then Inl ErrCRC
      else if le_word (take 4 p) \<noteq> Magic then Inl ErrMagic
      else if le_word (take 4 (drop 4 p)) \<noteq> Version then Inl ErrVersion
      else let n = unat (le_word (take 4 (drop 33 p)) :: 32 word) in
        if n > RecentCap then Inl ErrRecentCap
        else if 37 + n * 8 \<noteq> length p then (if 37 + n * 8 > length p then Inl ErrRecentSize else Inl ErrTrailing)
        else andThen (read_recent p 37 n) (\<lambda>vs. Inr (fields p vs)))"
proof -
  have len: "\<not> length buf < minLen" "length buf - 4 = length p" using assms by (simp_all add: minLen_def)
  have sl: "slice (length p) (length buf) buf = Inr (drop (length p) buf)" "slice 0 (length p) buf = Inr p"
    using assms by (simp_all add: slice_def)
  have tl: "Uint32 (drop (length p) buf) = Inr (le_word (drop (length p) buf))"
    using assms(1) by (simp add: Uint32_def)
  have rd: "andThen (slice 0 4 p) Uint32 = Inr (le_word (take 4 p))"
    "andThen (slice 4 8 p) Uint32 = Inr (le_word (take 4 (drop 4 p)))"
    "andThen (slice 8 16 p) Uint64 = Inr (le_word (take 8 (drop 8 p)))"
    "andThen (slice 16 24 p) Uint64 = Inr (le_word (take 8 (drop 16 p)))"
    "andThen (slice 24 32 p) Uint64 = Inr (le_word (take 8 (drop 24 p)))"
    "andThen (slice 33 37 p) Uint32 = Inr (le_word (take 4 (drop 33 p)))"
    "index_byte p 32 = Inr (p ! 32)"
    using assms(3) by (simp_all add: slice_def Uint32_def Uint64_def index_byte_def)
  show ?thesis
    unfolding Parse_def Let_def fields_def len(2) sl rd tl andThen_Inr using len(1) by simp
qed

lemma Parse_short: "length buf < minLen \<Longrightarrow> Parse buf = Inl ErrShort"
  by (simp add: Parse_def)

lemma buffer_split:
  assumes "minLen \<le> length buf"
  obtains p where "length buf = length p + 4" and "take (length p) buf = p" and "37 \<le> length p"
    and "buf = p @ drop (length p) buf"
proof -
  let ?p = "take (length buf - 4) buf"
  show thesis using assms by (intro that [of ?p]) (simp_all add: minLen_def)
qed

text \<open>The layout of a state, with the byte that stands for the flag.\<close>

definition layout :: "sieve_state \<Rightarrow> byte \<Rightarrow> byte list" where
  "layout s b = PutUint32 Magic @ PutUint32 Version @ PutUint64 (Limit s) @ PutUint64 (Next s) @ PutUint64 (Found s) @
     [b] @ PutUint32 (of_nat (length (Recent s))) @ concat (map PutUint64 (Recent s))"

lemma length_concat_Put [simp]: "length (concat (map PutUint64 vs)) = 8 * length vs"
  by (induction vs) simp_all

lemma length_layout: "length (layout s b) = 37 + 8 * length (Recent s)"
  by (simp add: layout_def)

lemma Encode_layout:
  "Encode s = (if length (Recent s) > RecentCap then Inl (length (Recent s))
     else let p = layout s (if SeededTwo s then 1 else 0) in Inr (p @ PutUint32 (ChecksumIEEE p)))"
  by (simp add: Encode_def layout_def Let_def)

lemma layout_parts:
  "take 4 (layout s b) = PutUint32 Magic" "take 4 (drop 4 (layout s b)) = PutUint32 Version"
  "take 8 (drop 8 (layout s b)) = PutUint64 (Limit s)" "take 8 (drop 16 (layout s b)) = PutUint64 (Next s)"
  "take 8 (drop 24 (layout s b)) = PutUint64 (Found s)" "layout s b ! 32 = b"
  "take 4 (drop 33 (layout s b)) = PutUint32 (of_nat (length (Recent s)))"
  "drop 37 (layout s b) = concat (map PutUint64 (Recent s))"
  by (simp_all add: layout_def nth_append)

lemma payload_split:
  assumes "37 \<le> length p"
  shows "p = take 4 p @ take 4 (drop 4 p) @ take 8 (drop 8 p) @ take 8 (drop 16 p) @ take 8 (drop 24 p) @
     [p ! 32] @ take 4 (drop 33 p) @ drop 37 p"
proof -
  have "drop 32 p = [p ! 32] @ drop 33 p" using assms Cons_nth_drop_Suc [of 32 p] by simp
  then show ?thesis
    using take_drop_step [of 0 p 4] take_drop_step [of 4 p 4] take_drop_step [of 8 p 8] take_drop_step [of 16 p 8]
      take_drop_step [of 24 p 8] take_drop_step [of 33 p 4] by simp
qed

lemma PutUint64_inj: "concat (map PutUint64 vs) = concat (map PutUint64 ws) \<Longrightarrow> length vs = length ws \<Longrightarrow> vs = ws"
proof (induction vs ws rule: list_induct2')
  case (4 v vs w ws)
  then have "PutUint64 v = PutUint64 w" "concat (map PutUint64 vs) = concat (map PutUint64 ws)"
    by (simp_all add: append_eq_append_conv)
  with 4 show ?case by (metis le_word_Put(2) length_Cons nat.inject)
qed simp_all

lemma Parse_layout:
  assumes "length (Recent s) \<le> RecentCap" and "buf = layout s b @ PutUint32 (ChecksumIEEE (layout s b))"
  shows "Parse buf = Inr (s\<lparr>SeededTwo := (b \<noteq> 0)\<rparr>)"
proof -
  let ?p = "layout s b" and ?n = "length (Recent s)"
  have n: "unat (of_nat ?n :: 32 word) = ?n" using assms(1) by (simp add: RecentCap_def unat_of_nat)
  obtain vs where vs: "read_recent ?p 37 ?n = Inr vs" "length vs = ?n"
      "concat (map PutUint64 vs) = take (8 * ?n) (drop 37 ?p)"
    using read_recent_total [of 37 ?n ?p] by (auto simp: length_layout)
  then have "concat (map PutUint64 vs) = concat (map PutUint64 (Recent s))" by (simp add: layout_parts)
  then have "vs = Recent s" using vs(2) by (rule PutUint64_inj)
  moreover have "Parse buf = andThen (read_recent ?p 37 ?n) (\<lambda>vs. Inr (fields ?p vs))"
    using assms by (subst Parse_checks [of _ ?p]) (simp_all add: length_layout layout_parts n)
  ultimately show ?thesis using vs(1) by (simp add: fields_def layout_parts)
qed

lemma Parse_InrD:
  assumes "Parse buf = Inr s"
  obtains b where "buf = layout s b @ PutUint32 (ChecksumIEEE (layout s b))" and "SeededTwo s \<longleftrightarrow> b \<noteq> 0"
    and "length (Recent s) \<le> RecentCap"
proof -
  have "minLen \<le> length buf" using assms Parse_short [of buf] by (cases "length buf < minLen") simp_all
  then obtain p where p: "length buf = length p + 4" "take (length p) buf = p" "37 \<le> length p"
    "buf = p @ drop (length p) buf" by (rule buffer_split)
  let ?n = "unat (le_word (take 4 (drop 33 p)) :: 32 word)"
  obtain crc: "le_word (drop (length p) buf) = ChecksumIEEE p" and m: "le_word (take 4 p) = Magic"
    and v: "le_word (take 4 (drop 4 p)) = Version" and n: "?n \<le> RecentCap" "37 + ?n * 8 = length p"
    and r: "andThen (read_recent p 37 ?n) (\<lambda>vs. Inr (fields p vs)) = Inr s"
    using assms unfolding Parse_checks [OF p(1-3)] Let_def by (metis Inl_Inr_False linorder_not_less)
  from read_recent_total [of 37 ?n p] n(2) obtain vs where vs: "read_recent p 37 ?n = Inr vs" "length vs = ?n"
    "concat (map PutUint64 vs) = drop 37 p" by (auto simp: mult.commute)
  have s: "s = fields p vs" using r vs(1) by simp
  have w4: "PutUint32 (le_word (take 4 (drop k p))) = take 4 (drop k p)" if "k \<le> 33" for k
    using p(3) that by (intro Put_le_word) simp
  have w8: "PutUint64 (le_word (take 8 (drop k p))) = take 8 (drop k p)" if "k \<le> 24" for k
    using p(3) that by (intro Put_le_word) simp
  have "layout s (p ! 32) = p"
    unfolding layout_def s fields_def
    using w4 [of 0] w4 [of 4] w4 [of 33] w8 [of 8] w8 [of 16] w8 [of 24] vs m v payload_split [OF p(3)] by simp
  moreover have "drop (length p) buf = PutUint32 (ChecksumIEEE p)"
    using crc p(1) by (metis Put_le_word(1) add_diff_cancel_left' length_drop)
  ultimately show thesis
    using p(4) n(1) vs(2) by (intro that [of "p ! 32"]) (simp_all add: s fields_def)
qed

section \<open>Properties\<close>

text \<open>
  C11: \<open>Parse\<close> accepts exactly the well-formed checkpoints: a buffer decodes to a state if and only
  if it is the layout of that state (magic, version, the three counters, a flag byte that is
  zero exactly when the flag is off, the count and the ring of at most 32 values) followed
  by its own checksum, with nothing before, between or after.
\<close>

theorem Parse_accepts_exactly:
  "Parse buf = Inr s \<longleftrightarrow>
     (\<exists>b. buf = layout s b @ PutUint32 (ChecksumIEEE (layout s b)) \<and> (SeededTwo s \<longleftrightarrow> b \<noteq> 0) \<and>
        length (Recent s) \<le> RecentCap)"
proof
  assume "Parse buf = Inr s"
  then show "\<exists>b. buf = layout s b @ PutUint32 (ChecksumIEEE (layout s b)) \<and> (SeededTwo s \<longleftrightarrow> b \<noteq> 0) \<and>
        length (Recent s) \<le> RecentCap" by (rule Parse_InrD) blast
next
  assume "\<exists>b. buf = layout s b @ PutUint32 (ChecksumIEEE (layout s b)) \<and> (SeededTwo s \<longleftrightarrow> b \<noteq> 0) \<and>
        length (Recent s) \<le> RecentCap"
  then obtain b where "buf = layout s b @ PutUint32 (ChecksumIEEE (layout s b))" and b: "SeededTwo s \<longleftrightarrow> b \<noteq> 0"
    and "length (Recent s) \<le> RecentCap" by blast
  then have "Parse buf = Inr (s\<lparr>SeededTwo := (b \<noteq> 0)\<rparr>)" by (intro Parse_layout)
  moreover have "s\<lparr>SeededTwo := (b \<noteq> 0)\<rparr> = s" using b by simp
  ultimately show "Parse buf = Inr s" by simp
qed

text \<open>
  C10: every state whose ring is within its capacity is encoded, and decoding the result gives
  the state back; a longer ring is refused.
\<close>

theorem Encode_then_Parse:
  "(case Encode s of
      Inr buf \<Rightarrow> length (Recent s) \<le> RecentCap \<and> Parse buf = Inr s
    | Inl n \<Rightarrow> n = length (Recent s) \<and> RecentCap < n)"
proof (cases "length (Recent s) \<le> RecentCap")
  case True
  let ?b = "if SeededTwo s then 1 else 0 :: byte"
  have "s\<lparr>SeededTwo := (?b \<noteq> 0)\<rparr> = s" by simp
  with Parse_layout [OF True refl, of ?b] True show ?thesis by (simp add: Encode_layout Let_def)
qed (simp add: Encode_layout)


definition demo_state :: sieve_state where
  "demo_state = \<lparr>Limit = 100, Next = 7, Found = 4, SeededTwo = True, Recent = [2, 3, 5, 7]\<rparr>"


text \<open>
  C23: \<open>Parse\<close> never panics: on no input is a slice or an index of it out of range.
\<close>

theorem Parse_never_panics: "Parse buf \<noteq> Inl Panic"
proof (cases "length buf < minLen")
  case True
  then show ?thesis by (simp add: Parse_short)
next
  case False
  then have "minLen \<le> length buf" by simp
  then obtain p where p: "length buf = length p + 4" "take (length p) buf = p" "37 \<le> length p"
    by (rule buffer_split)
  let ?n = "unat (le_word (take 4 (drop 33 p)) :: 32 word)"
  have "\<exists>vs. read_recent p 37 ?n = Inr vs" if "37 + ?n * 8 = length p"
    using read_recent_total [of 37 ?n p] that by (auto simp: mult.commute)
  then show ?thesis unfolding Parse_checks [OF p] by (auto simp: Let_def)
qed

text \<open>
  acceptance is canonical except for the flag byte. There is a checkpoint that decodes to
  a state and differs from the state's encoding exactly when the flag of the state is on: a
  flag byte other than zero and one is accepted and is not what the encoder writes.
\<close>

theorem Parse_accepts_noncanonical_flag:
  "(\<exists>buf. Parse buf = Inr s \<and> Encode s \<noteq> Inr buf) \<longleftrightarrow> SeededTwo s \<and> length (Recent s) \<le> RecentCap"
proof
  assume "\<exists>buf. Parse buf = Inr s \<and> Encode s \<noteq> Inr buf"
  then obtain buf where "Parse buf = Inr s" and ne: "Encode s \<noteq> Inr buf" by blast
  then obtain b where "buf = layout s b @ PutUint32 (ChecksumIEEE (layout s b))" "SeededTwo s \<longleftrightarrow> b \<noteq> 0"
    "length (Recent s) \<le> RecentCap" by (auto elim: Parse_InrD)
  with ne show "SeededTwo s \<and> length (Recent s) \<le> RecentCap" by (auto simp: Encode_layout Let_def)
next
  assume s: "SeededTwo s \<and> length (Recent s) \<le> RecentCap"
  let ?buf = "layout s 2 @ PutUint32 (ChecksumIEEE (layout s 2))"
  have "s\<lparr>SeededTwo := ((2 :: byte) \<noteq> 0)\<rparr> = s" using s by simp
  then have "Parse ?buf = Inr s" using Parse_layout [of s ?buf 2] s by simp
  moreover have "layout s 1 ! 32 \<noteq> layout s 2 ! 32" by (simp add: layout_parts)
  then have "Encode s \<noteq> Inr ?buf"
    using s by (auto simp: Encode_layout Let_def length_layout append_eq_append_conv)
  ultimately show "\<exists>buf. Parse buf = Inr s \<and> Encode s \<noteq> Inr buf" by blast
qed

text \<open>The published check value of CRC-32, the checksum of the nine digits, is the model's.\<close>

lemma crc_byte_unfold:
  "crc_byte b c = crc_bit (crc_bit (crc_bit (crc_bit (crc_bit (crc_bit (crc_bit (crc_bit (c XOR ucast b))))))))"
  by (simp add: crc_byte_def eval_nat_numeral)

lemma ChecksumIEEE_check_value:
  "ChecksumIEEE [0x31, 0x32, 0x33, 0x34, 0x35, 0x36, 0x37, 0x38, 0x39] = 0xCBF43926"
proof -
  have init: "NOT 0 = (0xFFFFFFFF :: 32 word)" by code_simp
  have step:
    "crc_byte 0x31 0xFFFFFFFF = 0x7C231048"
    "crc_byte 0x32 0x7C231048 = 0xB0ACBB32"
    "crc_byte 0x33 0xB0ACBB32 = 0x77B79C2D"
    "crc_byte 0x34 0x77B79C2D = 0x641C1F5C"
    "crc_byte 0x35 0x641C1F5C = 0x340AC5E3"
    "crc_byte 0x36 0x340AC5E3 = 0xF68D2C9E"
    "crc_byte 0x37 0xF68D2C9E = 0xAFFC9660"
    "crc_byte 0x38 0xAFFC9660 = 0x651F2550"
    "crc_byte 0x39 0x651F2550 = 0x340BC6D9"
    by (simp_all add: crc_byte_unfold crc_bit_def)
  show ?thesis unfolding ChecksumIEEE_def init by (simp add: step)
qed

end
