(* ===== verification/Redis.thy ===== *)
theory Redis
  imports Cluster GoLib
begin

text \<open>
  Model of \<open>internal/cluster/redis.go\<close>: the RESP encoder and reader on byte strings, and the
  \<open>RedisLocker\<close> with its lazily opened connection. The Redis server is a parameter \<open>serve\<close>, from
  the bytes of a request to the bytes of its reply; what the code relies on is the predicate
  \<open>redis_spec\<close>, the documented behaviour of \<open>SET ... NX EX\<close> and of the two scripts.
\<close>

section \<open>The wire format\<close>

definition CRLF :: string where
  "CRLF = [CHR 0x0D, CHR 0x0A]"

definition bulk :: "string \<Rightarrow> string" where
  "bulk p = ''$'' @ Itoa (int (length p)) @ CRLF @ p @ CRLF"

definition encodeRESP :: "string list \<Rightarrow> string" where
  "encodeRESP parts = ''*'' @ Itoa (int (length parts)) @ CRLF @ concat (map bulk parts)"

datatype resp = RStr string | RInt int | RNil | RArr "resp list"

text \<open>
  \<open>MakePanic\<close> is the run-time panic of \<open>make\<close> with a length it cannot allocate; \<open>NoFuel\<close> is the
  value of the model's recursion bound, never reached (theorem below).
\<close>

datatype resp_error =
  ReadErr string | ServerErr string | BadNumber num_error | UnknownPrefix char | MakePanic | NoFuel

text \<open>\<open>bufio.Reader.ReadString\<close> up to the line feed, then the line without its ending.\<close>

definition readLine :: "string \<Rightarrow> (resp_error + string) \<times> string" where
  "readLine s =
     (if CHR 0x0A \<in> set s
      then (Inr (TrimRight (takeWhile (\<lambda>c. c \<noteq> CHR 0x0A) s @ [CHR 0x0A]) CRLF), tl (dropWhile (\<lambda>c. c \<noteq> CHR 0x0A) s))
      else (Inl (ReadErr ''EOF''), ''''))"

text \<open>\<open>make([]byte, n)\<close> and \<open>make([]any, n)\<close> (16 bytes each) within the address space of 2 to the 48.\<close>

definition makeable :: "int \<Rightarrow> int \<Rightarrow> bool" where
  "makeable sz n \<longleftrightarrow> 0 \<le> n \<and> sz * n \<le> 281474976710656"

definition read_bulk :: "string \<Rightarrow> string \<Rightarrow> (resp_error + resp) \<times> string" where
  "read_bulk line rest =
     (case Atoi line of
        Inl e \<Rightarrow> (Inl (BadNumber e), rest)
      | Inr n \<Rightarrow>
          if n < 0 then (Inr RNil, rest)
          else if \<not> makeable 1 (wrap64 (n + 2)) then (Inl MakePanic, rest)
          else if length rest < nat (n + 2) then (Inl (ReadErr ''unexpected EOF''), '''')
          else (Inr (RStr (take (nat n) rest)), drop (nat (n + 2)) rest))"

text \<open>The reader consumes its input; the rest of the input is returned with the result.\<close>

fun readRESP :: "nat \<Rightarrow> string \<Rightarrow> (resp_error + resp) \<times> string"
and readMany :: "nat \<Rightarrow> nat \<Rightarrow> string \<Rightarrow> (resp_error + resp list) \<times> string" where
  "readRESP 0 s = (Inl NoFuel, s)"
| "readRESP (Suc fuel) s =
     (case s of
        [] \<Rightarrow> (Inl (ReadErr ''EOF''), '''')
      | prefix # s1 \<Rightarrow>
          (case readLine s1 of
             (Inl e, s2) \<Rightarrow> (Inl e, s2)
           | (Inr line, s2) \<Rightarrow>
               if prefix = CHR ''+'' then (Inr (RStr line), s2)
               else if prefix = CHR ''-'' then (Inl (ServerErr line), s2)
               else if prefix = CHR '':'' then
                 (case Atoi line of Inl e \<Rightarrow> (Inl (BadNumber e), s2) | Inr n \<Rightarrow> (Inr (RInt n), s2))
               else if prefix = CHR ''$'' then read_bulk line s2
               else if prefix = CHR ''*'' then
                 (case Atoi line of
                    Inl e \<Rightarrow> (Inl (BadNumber e), s2)
                  | Inr n \<Rightarrow>
                      if n < 0 then (Inr RNil, s2)
                      else if \<not> makeable 16 n then (Inl MakePanic, s2)
                      else (case readMany fuel (nat n) s2 of
                              (Inl e, s3) \<Rightarrow> (Inl e, s3) | (Inr vs, s3) \<Rightarrow> (Inr (RArr vs), s3)))
               else (Inl (UnknownPrefix prefix), s2)))"
| "readMany fuel 0 s = (Inr [], s)"
| "readMany fuel (Suc n) s =
     (case readRESP fuel s of
        (Inl e, s1) \<Rightarrow> (Inl e, s1)
      | (Inr v, s1) \<Rightarrow>
          (case readMany fuel n s1 of (Inl e, s2) \<Rightarrow> (Inl e, s2) | (Inr vs, s2) \<Rightarrow> (Inr (v # vs), s2)))"

text \<open>The reader with enough fuel for its input.\<close>

definition read_reply :: "string \<Rightarrow> (resp_error + resp) \<times> string" where
  "read_reply s = readRESP (Suc (length s)) s"

section \<open>The locker\<close>

text \<open>
  What the network does to one command: the outcome of dialling (used only without a
  connection), of writing (with the flag whether the server received the command although
  the write failed), and of reading before the deadline.
\<close>

record link =
  l_dial :: "lock_error option"
  l_write :: "(string \<times> bool) option"
  l_read :: "string option"

text \<open>
  A client: \<open>conn\<close> is \<open>None\<close> without a connection, otherwise the bytes the server has sent on it
  that have not been read yet.
\<close>

record RedisLocker =
  addr :: string
  conn :: "string option"
  links :: "nat \<Rightarrow> link"
  dos :: nat

definition NewRedisLocker :: "string \<Rightarrow> (nat \<Rightarrow> link) \<Rightarrow> RedisLocker" where
  "NewRedisLocker a ls = \<lparr>addr = a, conn = None, links = ls, dos = 0\<rparr>"

definition redis_Close :: "RedisLocker \<Rightarrow> RedisLocker" where
  "redis_Close r = (if conn r \<noteq> None then r\<lparr>conn := None\<rparr> else r)"

definition ensureConn :: "link \<Rightarrow> RedisLocker \<Rightarrow> (lock_error + unit) \<times> RedisLocker" where
  "ensureConn k r =
     (if conn r \<noteq> None then (Inr (), r)
      else case l_dial k of Some e \<Rightarrow> (Inl e, r) | None \<Rightarrow> (Inr (), r\<lparr>conn := Some ''''\<rparr>))"

type_synonym 's redis_server = "nanos \<Rightarrow> string \<Rightarrow> 's \<Rightarrow> string \<times> 's"

definition redis_do :: "'s redis_server \<Rightarrow> nanos \<Rightarrow> string list \<Rightarrow> RedisLocker \<Rightarrow> 's \<Rightarrow> (lock_error + resp) \<times> RedisLocker \<times> 's" where
  "redis_do serve now parts r0 s =
     (let k = links r0 (dos r0) in
      case ensureConn k (r0\<lparr>dos := Suc (dos r0)\<rparr>) of
        (Inl e, r) \<Rightarrow> (Inl e, r, s)
      | (Inr _, r) \<Rightarrow>
          let (reply, s') = serve now (encodeRESP parts) s in
          case l_write k of
            Some (e, received) \<Rightarrow> (Inl (LockError e), r\<lparr>conn := None\<rparr>, if received then s' else s)
          | None \<Rightarrow>
              let inbox = the (conn r) @ reply in
              (case l_read k of
                 Some e \<Rightarrow> (Inl (LockError e), r\<lparr>conn := Some inbox\<rparr>, s')
               | None \<Rightarrow>
                   let (v, rest) = read_reply inbox in
                   (case v of Inl _ \<Rightarrow> Inl (LockError ''redis'') | Inr x \<Rightarrow> Inr x, r\<lparr>conn := Some rest\<rparr>, s')))"

definition lease_secs :: "int \<Rightarrow> int" where
  "lease_secs ttl = (let secs = ttl div Second in if secs < 1 then 1 else secs)"

definition refreshScript :: string where
  "refreshScript = ''if redis.call('' @ [CHR 0x27] @ ''GET'' @ [CHR 0x27] @ '', KEYS[1]) == ARGV[1] then return redis.call('' @
     [CHR 0x27] @ ''EXPIRE'' @ [CHR 0x27] @ '', KEYS[1], ARGV[2]) else return 0 end''"

definition releaseScript :: string where
  "releaseScript = ''if redis.call('' @ [CHR 0x27] @ ''GET'' @ [CHR 0x27] @ '', KEYS[1]) == ARGV[1] then return redis.call('' @
     [CHR 0x27] @ ''DEL'' @ [CHR 0x27] @ '', KEYS[1]) else return 0 end''"

definition redis_Acquire ::
  "'s redis_server \<Rightarrow> nanos \<Rightarrow> string \<Rightarrow> string \<Rightarrow> int \<Rightarrow> RedisLocker \<Rightarrow> 's \<Rightarrow> (lock_error + bool) \<times> RedisLocker \<times> 's" where
  "redis_Acquire serve now key holder ttl r s =
     (case redis_do serve now [''SET'', key, holder, ''NX'', ''EX'', Itoa (lease_secs ttl)] r s of
        (Inl e, r', s') \<Rightarrow> (Inl e, r', s')
      | (Inr v, r', s') \<Rightarrow>
          (case v of
             RStr x \<Rightarrow> Inr (x = ''OK'')
           | RNil \<Rightarrow> Inr False
           | _ \<Rightarrow> Inl (LockError ''unexpected SET response''), r', s'))"

definition redis_Refresh ::
  "'s redis_server \<Rightarrow> nanos \<Rightarrow> string \<Rightarrow> string \<Rightarrow> int \<Rightarrow> RedisLocker \<Rightarrow> 's \<Rightarrow> (lock_error + unit) \<times> RedisLocker \<times> 's" where
  "redis_Refresh serve now key holder ttl r s =
     (case redis_do serve now [''EVAL'', refreshScript, ''1'', key, holder, Itoa (lease_secs ttl)] r s of
        (Inl e, r', s') \<Rightarrow> (Inl e, r', s')
      | (Inr v, r', s') \<Rightarrow> (if v = RInt 1 then Inr () else Inl ErrNotHeld, r', s'))"

definition redis_Release ::
  "'s redis_server \<Rightarrow> nanos \<Rightarrow> string \<Rightarrow> string \<Rightarrow> RedisLocker \<Rightarrow> 's \<Rightarrow> (lock_error + unit) \<times> RedisLocker \<times> 's" where
  "redis_Release serve now key holder r s =
     (case redis_do serve now [''EVAL'', releaseScript, ''1'', key, holder] r s of
        (Inl e, r', s') \<Rightarrow> (Inl e, r', s')
      | (Inr v, r', s') \<Rightarrow> (if v = RInt 1 then Inr () else Inl ErrNotHeld, r', s'))"

section \<open>Facts about the wire format\<close>

lemma digit_not_crlf: "is_digit c \<Longrightarrow> c \<notin> set CRLF" "is_digit c \<Longrightarrow> c \<noteq> CHR 0x0A"
  by (auto simp: is_digit_def CRLF_def)

lemma readLine_digits:
  assumes "list_all is_digit ds" and "ds \<noteq> []"
  shows "readLine (ds @ CRLF @ rest) = (Inr ds, rest)"
proof -
  have nl: "\<forall>c \<in> set (ds @ [CHR 0x0D]). c \<noteq> CHR 0x0A"
    using assms(1) digit_not_crlf(2) by (auto simp: list_all_iff)
  have s: "ds @ CRLF @ rest = (ds @ [CHR 0x0D]) @ CHR 0x0A # rest" by (simp add: CRLF_def)
  have tk: "takeWhile (\<lambda>c. c \<noteq> CHR 0x0A) (ds @ CRLF @ rest) = ds @ [CHR 0x0D]"
    and dr: "dropWhile (\<lambda>c. c \<noteq> CHR 0x0A) (ds @ CRLF @ rest) = CHR 0x0A # rest"
    unfolding s using nl takeWhile_append2 [of "ds @ [CHR 0x0D]" "\<lambda>c. c \<noteq> CHR 0x0A" "CHR 0x0A # rest"]
      dropWhile_append2 [of "ds @ [CHR 0x0D]" "\<lambda>c. c \<noteq> CHR 0x0A" "CHR 0x0A # rest"] by auto
  have "last ds \<notin> set CRLF" using assms digit_not_crlf(1) by (auto simp: list_all_iff)
  then have "dropWhile (\<lambda>c. c \<in> set CRLF) (rev ds) = rev ds"
    using assms(2) by (metis dropWhile_eq_self_iff hd_rev)
  then have "TrimRight ((ds @ [CHR 0x0D]) @ [CHR 0x0A]) CRLF = ds"
    by (simp add: TrimRight_def) (simp add: CRLF_def)
  then show ?thesis unfolding readLine_def tk dr by (simp add: CRLF_def)
qed

lemma Itoa_digits: "0 \<le> n \<Longrightarrow> list_all is_digit (Itoa n) \<and> Itoa n \<noteq> []"
  by (simp add: Itoa_def)

lemma readLine_Itoa: "0 \<le> n \<Longrightarrow> readLine (Itoa n @ CRLF @ rest) = (Inr (Itoa n), rest)"
  using Itoa_digits by (intro readLine_digits) auto

lemma readRESP_bulk:
  assumes "int (length p) < 140737488355328"
  shows "readRESP (Suc fuel) (bulk p @ rest) = (Inr (RStr p), rest)"
proof -
  have "readLine (Itoa (int (length p)) @ CRLF @ p @ CRLF @ rest) = (Inr (Itoa (int (length p))), p @ CRLF @ rest)"
    by (rule readLine_Itoa) simp
  moreover have "Atoi (Itoa (int (length p))) = Inr (int (length p))"
    using assms by (intro Atoi_Itoa) (simp add: int64_range_def)
  moreover have "makeable 1 (wrap64 (int (length p) + 2))"
    using assms by (simp add: makeable_def wrap64_def)
  ultimately show ?thesis
    by (simp add: bulk_def read_bulk_def nat_add_distrib) (simp add: CRLF_def)
qed

lemma readMany_bulks:
  assumes "\<forall>p \<in> set parts. int (length p) < 140737488355328"
  shows "readMany (Suc fuel) (length parts) (concat (map bulk parts) @ rest) = (Inr (map RStr parts), rest)"
  using assms
proof (induction parts)
  case (Cons p parts)
  then show ?case using readRESP_bulk [of p fuel "concat (map bulk parts) @ rest"] by simp
qed simp

text \<open>Enough fuel: each value takes at least one byte, so the input's length bounds the nesting.\<close>

lemma readLine_shorter: "readLine s = (r, s') \<Longrightarrow> length s' \<le> length s"
  by (auto simp: readLine_def split: if_splits)
     (metis le_diff_conv length_dropWhile_le trans_le_add1)

lemma read_bulk_facts: "read_bulk line s = (r, s') \<Longrightarrow> length s' \<le> length s \<and> r \<noteq> Inl NoFuel"
  by (auto simp: read_bulk_def split: sum.splits if_splits)

lemma readRESP_fuel:
  "length s < fuel \<Longrightarrow> readRESP fuel s = (r, s') \<Longrightarrow>
     length s' \<le> length s \<and> r \<noteq> Inl NoFuel \<and> (isl r \<or> length s' < length s)"
  "length s < fuel \<Longrightarrow> readMany fuel n s = (rs, s') \<Longrightarrow> length s' \<le> length s \<and> rs \<noteq> Inl NoFuel"
proof (induction fuel s and fuel n s arbitrary: r s' and rs s' rule: readRESP_readMany.induct)
  case (2 fuel s)
  show ?case
  proof (cases s)
    case Nil
    with 2 show ?thesis by auto
  next
    case (Cons prefix s1)
    obtain x s2 where rl: "readLine s1 = (x, s2)" by fastforce
    then have le: "length s2 \<le> length s1" by (rule readLine_shorter)
    show ?thesis
    proof (cases x)
      case (Inl e)
      then have "e \<noteq> NoFuel" using rl by (auto simp: readLine_def split: if_splits)
      with 2 Cons rl Inl le show ?thesis by auto
    next
      case (Inr line)
      have many: "length s3 \<le> length s2 \<and> m \<noteq> Inl NoFuel"
        if "readMany fuel (nat n) s2 = (m, s3)" "prefix = CHR ''*''" "Atoi line = Inr n" "\<not> n < 0" "makeable 16 n" for m s3 n
        using "2.IH" [of prefix s1 x s2 line n m s3] 2(2) that Cons rl Inr le by auto
      show ?thesis using 2(3) Cons rl Inr le many
        by (auto split: if_splits sum.splits prod.splits dest: read_bulk_facts) (fastforce dest: many)+
    qed
  qed
qed (auto split: prod.splits sum.splits; fastforce)+

section \<open>What the code relies on of the server\<close>

text \<open>The three requests of the locker.\<close>

definition set_nx :: "string \<Rightarrow> string \<Rightarrow> int \<Rightarrow> string" where
  "set_nx k h n = encodeRESP [''SET'', k, h, ''NX'', ''EX'', Itoa n]"

definition eval_refresh :: "string \<Rightarrow> string \<Rightarrow> int \<Rightarrow> string" where
  "eval_refresh k h n = encodeRESP [''EVAL'', refreshScript, ''1'', k, h, Itoa n]"

definition eval_release :: "string \<Rightarrow> string \<Rightarrow> string" where
  "eval_release k h = encodeRESP [''EVAL'', releaseScript, ''1'', k, h]"

text \<open>
  For keys and values within the server's limit of 512 megabytes and durations that fit the
  client's: \<open>get s k t\<close> is the value of the key at the instant \<open>t\<close> if no request arrives until then. A key
  set with a time to live keeps its value for that time; \<open>SET NX\<close> sets a key only where it has no
  value; the scripts extend or delete the key only where its value is their argument.
\<close>

definition unchanged :: "('s \<Rightarrow> string \<Rightarrow> nanos \<Rightarrow> string option) \<Rightarrow> nanos \<Rightarrow> 's \<Rightarrow> 's \<Rightarrow> bool" where
  "unchanged get now s s' \<longleftrightarrow> (\<forall>k t. now \<le> t \<longrightarrow> get s' k t = get s k t)"

definition held_for :: "('s \<Rightarrow> string \<Rightarrow> nanos \<Rightarrow> string option) \<Rightarrow> nanos \<Rightarrow> string \<Rightarrow> string \<Rightarrow> int \<Rightarrow> 's \<Rightarrow> bool" where
  "held_for get now k h n s \<longleftrightarrow> (\<forall>t. now \<le> t \<and> t \<le> now + n * Second \<longrightarrow> get s k t = Some h)"

definition small :: "string \<Rightarrow> bool" where
  "small p \<longleftrightarrow> length p < 536870912"

definition seconds :: "int \<Rightarrow> bool" where
  "seconds n \<longleftrightarrow> 1 \<le> n \<and> n \<le> 9223372036"

definition set_spec :: "'s redis_server \<Rightarrow> ('s \<Rightarrow> string \<Rightarrow> nanos \<Rightarrow> string option) \<Rightarrow> bool" where
  "set_spec serve get \<longleftrightarrow>
     (\<forall>now k h n s reply s'. small k \<longrightarrow> small h \<longrightarrow> seconds n \<longrightarrow> serve now (set_nx k h n) s = (reply, s') \<longrightarrow>
        (if get s k now = None then reply = ''+OK'' @ CRLF \<and> held_for get now k h n s'
         else reply = ''$-1'' @ CRLF \<and> unchanged get now s s'))"

definition refresh_spec :: "'s redis_server \<Rightarrow> ('s \<Rightarrow> string \<Rightarrow> nanos \<Rightarrow> string option) \<Rightarrow> bool" where
  "refresh_spec serve get \<longleftrightarrow>
     (\<forall>now k h n s reply s'. small k \<longrightarrow> small h \<longrightarrow> seconds n \<longrightarrow> serve now (eval_refresh k h n) s = (reply, s') \<longrightarrow>
        (if get s k now = Some h then reply = '':1'' @ CRLF \<and> held_for get now k h n s'
         else reply = '':0'' @ CRLF \<and> unchanged get now s s'))"

definition release_spec :: "'s redis_server \<Rightarrow> ('s \<Rightarrow> string \<Rightarrow> nanos \<Rightarrow> string option) \<Rightarrow> bool" where
  "release_spec serve get \<longleftrightarrow>
     (\<forall>now k h s reply s'. small k \<longrightarrow> small h \<longrightarrow> serve now (eval_release k h) s = (reply, s') \<longrightarrow>
        (if get s k now = Some h then reply = '':1'' @ CRLF \<and> (\<forall>t. now \<le> t \<longrightarrow> get s' k t = None)
         else reply = '':0'' @ CRLF \<and> unchanged get now s s'))"

definition ttl_spec :: "('s \<Rightarrow> string \<Rightarrow> nanos \<Rightarrow> string option) \<Rightarrow> bool" where
  "ttl_spec get \<longleftrightarrow> (\<forall>s k t t' h. get s k t = Some h \<longrightarrow> t' \<le> t \<longrightarrow> get s k t' = Some h)"

definition redis_spec :: "'s redis_server \<Rightarrow> ('s \<Rightarrow> string \<Rightarrow> nanos \<Rightarrow> string option) \<Rightarrow> bool" where
  "redis_spec serve get \<longleftrightarrow> set_spec serve get \<and> refresh_spec serve get \<and> release_spec serve get \<and> ttl_spec get"

section \<open>A cluster on Redis\<close>

text \<open>Every controller has its own client, all use one server: the state behind the interface.\<close>

record 's redis_world =
  client :: "string \<Rightarrow> RedisLocker"
  server :: 's

definition on_world :: "(RedisLocker \<Rightarrow> 's \<Rightarrow> 'r \<times> RedisLocker \<times> 's) \<Rightarrow> string \<Rightarrow> 's redis_world \<Rightarrow> 'r \<times> 's redis_world" where
  "on_world f h w = (let (x, r, s) = f (client w h) (server w) in (x, \<lparr>client = (client w)(h := r), server = s\<rparr>))"

definition redis_Locker :: "'s redis_server \<Rightarrow> 's redis_world Locker" where
  "redis_Locker serve =
     \<lparr>Acquire = (\<lambda>now k h ttl. on_world (redis_Acquire serve now k h ttl) h),
      Refresh = (\<lambda>now k h ttl. on_world (redis_Refresh serve now k h ttl) h),
      Release = (\<lambda>now k h. on_world (redis_Release serve now k h) h)\<rparr>"

text \<open>No reply is late: nothing unread is left on a connection and no read meets its deadline.\<close>

definition prompt :: "RedisLocker \<Rightarrow> bool" where
  "prompt r \<longleftrightarrow> conn r \<in> {None, Some ''''} \<and> (\<forall>n. l_read (links r n) = None)"

lemma read_simple_replies:
  "read_reply (''+OK'' @ CRLF) = (Inr (RStr ''OK''), '''')" "read_reply (''$-1'' @ CRLF) = (Inr RNil, '''')"
  "read_reply ('':1'' @ CRLF) = (Inr (RInt 1), '''')" "read_reply ('':0'' @ CRLF) = (Inr (RInt 0), '''')"
  by (simp_all add: read_reply_def CRLF_def readLine_def TrimRight_def read_bulk_def Atoi_def HasPrefix_def
      is_digit_def digits_val_def digit_val_def Let_def)

text \<open>One exchange without delay: the command did not reach the server, or its reply is read.\<close>

lemma redis_do_prompt:
  assumes "prompt r" and "redis_do serve now parts r s = (x, r', s')"
    and "serve now (encodeRESP parts) s = (reply, s1)"
    and "\<exists>v. read_reply reply = (Inr v, '''')"
  shows "prompt r'" and "(isl x \<and> s' = s) \<or> s' = s1"
    and "x = Inr v \<Longrightarrow> read_reply reply = (Inr v, '''') \<and> s' = s1"
    and "x = Inl Canceled \<Longrightarrow> s' = s"
  using assms
  by (auto simp: prompt_def redis_do_def ensureConn_def Let_def split: option.splits if_splits prod.splits sum.splits)

definition redis_valid :: "string \<Rightarrow> string \<Rightarrow> int \<Rightarrow> bool" where
  "redis_valid k h ttl \<longleftrightarrow> small k \<and> small h \<and> int64_range ttl"

lemma lease_secs_seconds:
  assumes "redis_valid k h ttl"
  shows "seconds (lease_secs ttl)"
proof -
  have "ttl \<le> 9223372036854775807" using assms by (simp add: redis_valid_def int64_range_def)
  then have "ttl div 1000000000 \<le> 9223372036" by simp
  then show ?thesis by (simp add: seconds_def lease_secs_def Let_def Second_def)
qed

lemma redis_spec_set:
  assumes "redis_spec serve get" and v: "redis_valid k h ttl" and "serve now (set_nx k h (lease_secs ttl)) s = (reply, s1)"
  shows "if get s k now = None then reply = ''+OK'' @ CRLF \<and> held_for get now k h (lease_secs ttl) s1
      else reply = ''$-1'' @ CRLF \<and> unchanged get now s s1"
proof -
  have vs: "small k" "small h" using v by (simp_all add: redis_valid_def)
  show ?thesis
    using assms(1) [unfolded redis_spec_def, THEN conjunct1, unfolded set_spec_def, rule_format, OF vs lease_secs_seconds [OF v] assms(3)] .
qed

lemma redis_spec_refresh:
  assumes "redis_spec serve get" and v: "redis_valid k h ttl" and "serve now (eval_refresh k h (lease_secs ttl)) s = (reply, s1)"
  shows "if get s k now = Some h then reply = '':1'' @ CRLF \<and> held_for get now k h (lease_secs ttl) s1
      else reply = '':0'' @ CRLF \<and> unchanged get now s s1"
proof -
  have vs: "small k" "small h" using v by (simp_all add: redis_valid_def)
  show ?thesis
    using assms(1) [unfolded redis_spec_def, THEN conjunct2, THEN conjunct1, unfolded refresh_spec_def, rule_format,
      OF vs lease_secs_seconds [OF v] assms(3)] .
qed

lemma redis_spec_release:
  assumes "redis_spec serve get" and v: "redis_valid k h ttl" and "serve now (eval_release k h) s = (reply, s1)"
  shows "if get s k now = Some h then reply = '':1'' @ CRLF \<and> (\<forall>t. now \<le> t \<longrightarrow> get s1 k t = None)
      else reply = '':0'' @ CRLF \<and> unchanged get now s s1"
proof -
  have vs: "small k" "small h" using v by (simp_all add: redis_valid_def)
  show ?thesis
    using assms(1) [unfolded redis_spec_def, THEN conjunct2, THEN conjunct2, THEN conjunct1, unfolded release_spec_def,
      THEN spec, THEN spec, THEN spec, THEN spec, THEN spec, THEN spec, THEN mp, THEN mp, THEN mp, OF vs assms(3)] .
qed

text \<open>
  The three outcomes of an operation: it failed before the server saw it, the server carried
  it out, or the server refused it; an error may hide either of the last two.
\<close>

lemma redis_Acquire_cases:
  assumes "redis_spec serve get" and v: "redis_valid k h ttl" and "prompt r" and "redis_Acquire serve now k h ttl r s = (x, r', s')"
  shows "prompt r'"
    and "isl x \<and> s' = s \<or>
      get s k now = None \<and> held_for get now k h (lease_secs ttl) s' \<and> (isl x \<or> x = Inr True) \<or>
      get s k now \<noteq> None \<and> unchanged get now s s' \<and> (isl x \<or> x = Inr False)"
proof -
  obtain reply s1 where sv: "serve now (set_nx k h (lease_secs ttl)) s = (reply, s1)" by fastforce
  obtain v where rd: "read_reply reply = (Inr v, '''')"
    and spec: "get s k now = None \<and> held_for get now k h (lease_secs ttl) s1 \<and> v = RStr ''OK'' \<or>
      get s k now \<noteq> None \<and> unchanged get now s s1 \<and> v = RNil"
    using redis_spec_set [OF assms(1,2) sv] read_simple_replies by metis
  obtain y r1 s2 where d: "redis_do serve now [''SET'', k, h, ''NX'', ''EX'', Itoa (lease_secs ttl)] r s = (y, r1, s2)"
    by (rule prod_cases3)
  have eq: "r' = r1" "s' = s2" and x: "isl x \<or> (\<exists>w. y = Inr w \<and> x = Inr (w = RStr ''OK''))" and "isl y \<Longrightarrow> isl x"
    using assms(4) unfolding redis_Acquire_def d by (auto split: sum.splits resp.splits)
  note * = redis_do_prompt [OF assms(3) d sv [unfolded set_nx_def]]
  show "prompt r'" unfolding eq using *(1) rd by blast
  have "y = Inr w \<Longrightarrow> w = v \<and> s2 = s1" for w using *(3) [of w] rd by auto
  moreover have "isl y \<and> s2 = s \<or> s2 = s1" using *(2) rd by blast
  ultimately show "isl x \<and> s' = s \<or>
      get s k now = None \<and> held_for get now k h (lease_secs ttl) s' \<and> (isl x \<or> x = Inr True) \<or>
      get s k now \<noteq> None \<and> unchanged get now s s' \<and> (isl x \<or> x = Inr False)"
    unfolding eq using spec x \<open>isl y \<Longrightarrow> isl x\<close> by auto
qed

lemma redis_Refresh_cases:
  assumes "redis_spec serve get" and v: "redis_valid k h ttl" and "prompt r" and "redis_Refresh serve now k h ttl r s = (x, r', s')"
  shows "prompt r'"
    and "isl x \<and> s' = s \<or>
      get s k now = Some h \<and> held_for get now k h (lease_secs ttl) s' \<and> (isl x \<or> x = Inr ()) \<or>
      get s k now \<noteq> Some h \<and> unchanged get now s s' \<and> isl x"
    and "x = Inl Canceled \<Longrightarrow> s' = s"
proof -
  obtain reply s1 where sv: "serve now (eval_refresh k h (lease_secs ttl)) s = (reply, s1)" by fastforce
  obtain v where rd: "read_reply reply = (Inr v, '''')"
    and spec: "get s k now = Some h \<and> held_for get now k h (lease_secs ttl) s1 \<and> v = RInt 1 \<or>
      get s k now \<noteq> Some h \<and> unchanged get now s s1 \<and> v = RInt 0"
    using redis_spec_refresh [OF assms(1,2) sv] read_simple_replies by metis
  obtain y r1 s2 where d: "redis_do serve now [''EVAL'', refreshScript, ''1'', k, h, Itoa (lease_secs ttl)] r s = (y, r1, s2)"
    by (rule prod_cases3)
  have eq: "r' = r1" "s' = s2" and x: "x = (case y of Inl e \<Rightarrow> Inl e | Inr w \<Rightarrow> if w = RInt 1 then Inr () else Inl ErrNotHeld)"
    using assms(4) unfolding redis_Refresh_def d by (auto split: sum.splits)
  note * = redis_do_prompt [OF assms(3) d sv [unfolded eval_refresh_def]]
  show "prompt r'" unfolding eq using *(1) rd by blast
  show "x = Inl Canceled \<Longrightarrow> s' = s"
    unfolding eq using *(4) rd x by (cases y) (auto split: if_splits)
  have "y = Inr w \<Longrightarrow> w = v \<and> s2 = s1" for w using *(3) [of w] rd by auto
  moreover have "isl y \<and> s2 = s \<or> s2 = s1" using *(2) rd by blast
  ultimately show "isl x \<and> s' = s \<or>
      get s k now = Some h \<and> held_for get now k h (lease_secs ttl) s' \<and> (isl x \<or> x = Inr ()) \<or>
      get s k now \<noteq> Some h \<and> unchanged get now s s' \<and> isl x"
    unfolding eq x using spec by (cases y) auto
qed

lemma redis_Release_cases:
  assumes "redis_spec serve get" and v: "redis_valid k h ttl" and "prompt r" and "redis_Release serve now k h r s = (x, r', s')"
  shows "prompt r'"
    and "isl x \<and> s' = s \<or> get s k now = Some h \<or> unchanged get now s s'"
proof -
  obtain reply s1 where sv: "serve now (eval_release k h) s = (reply, s1)" by fastforce
  obtain v where rd: "read_reply reply = (Inr v, '''')" and spec: "get s k now = Some h \<or> unchanged get now s s1"
    using redis_spec_release [OF assms(1,2) sv] read_simple_replies by metis
  obtain y r1 s2 where d: "redis_do serve now [''EVAL'', releaseScript, ''1'', k, h] r s = (y, r1, s2)"
    by (rule prod_cases3)
  have eq: "r' = r1" "s' = s2" and x: "isl y \<Longrightarrow> isl x"
    using assms(4) unfolding redis_Release_def d by (auto split: sum.splits)
  note * = redis_do_prompt [OF assms(3) d sv [unfolded eval_release_def]]
  show "prompt r'" unfolding eq using *(1) rd by blast
  have "isl y \<and> s2 = s \<or> s2 = s1" using *(2) rd by blast
  then show "isl x \<and> s' = s \<or> get s k now = Some h \<or> unchanged get now s s'"
    unfolding eq using spec x by auto
qed

lemma on_world_E:
  assumes "on_world f h w = (x, w')"
  obtains r s where "f (client w h) (server w) = (x, r, s)" and "w' = \<lparr>client = (client w)(h := r), server = s\<rparr>"
  using assms by (auto simp: on_world_def Let_def split: prod.splits)

lemma redis_ops:
  "Acquire (redis_Locker serve) now k h ttl = on_world (redis_Acquire serve now k h ttl) h"
  "Refresh (redis_Locker serve) now k h ttl = on_world (redis_Refresh serve now k h ttl) h"
  "Release (redis_Locker serve) now k h = on_world (redis_Release serve now k h) h"
  by (simp_all add: redis_Locker_def)

definition all_prompt :: "'s redis_world \<Rightarrow> bool" where
  "all_prompt w \<longleftrightarrow> (\<forall>h. prompt (client w h))"

lemma world_Acquire:
  assumes "redis_spec serve get" and v: "redis_valid k h ttl" and "all_prompt w" and "Acquire (redis_Locker serve) now k h ttl w = (x, w')"
  shows "all_prompt w'"
    and "isl x \<and> server w' = server w \<or>
      get (server w) k now = None \<and> held_for get now k h (lease_secs ttl) (server w') \<and> (isl x \<or> x = Inr True) \<or>
      get (server w) k now \<noteq> None \<and> unchanged get now (server w) (server w') \<and> (isl x \<or> x = Inr False)"
proof -
  from assms(4) obtain r s where rs: "redis_Acquire serve now k h ttl (client w h) (server w) = (x, r, s)"
    and w': "w' = \<lparr>client = (client w)(h := r), server = s\<rparr>" unfolding redis_ops by (rule on_world_E)
  have p: "prompt (client w h)" using assms(3) by (simp add: all_prompt_def)
  show "all_prompt w'" using redis_Acquire_cases(1) [OF assms(1) v p rs] assms(3) by (simp add: w' all_prompt_def)
  show "isl x \<and> server w' = server w \<or>
      get (server w) k now = None \<and> held_for get now k h (lease_secs ttl) (server w') \<and> (isl x \<or> x = Inr True) \<or>
      get (server w) k now \<noteq> None \<and> unchanged get now (server w) (server w') \<and> (isl x \<or> x = Inr False)"
    using redis_Acquire_cases(2) [OF assms(1) v p rs] by (simp add: w')
qed

lemma world_Refresh:
  assumes "redis_spec serve get" and v: "redis_valid k h ttl" and "all_prompt w" and "Refresh (redis_Locker serve) now k h ttl w = (x, w')"
  shows "all_prompt w'"
    and "isl x \<and> server w' = server w \<or>
      get (server w) k now = Some h \<and> held_for get now k h (lease_secs ttl) (server w') \<and> (isl x \<or> x = Inr ()) \<or>
      get (server w) k now \<noteq> Some h \<and> unchanged get now (server w) (server w') \<and> isl x"
    and "x = Inl Canceled \<Longrightarrow> server w' = server w"
proof -
  from assms(4) obtain r s where rs: "redis_Refresh serve now k h ttl (client w h) (server w) = (x, r, s)"
    and w': "w' = \<lparr>client = (client w)(h := r), server = s\<rparr>" unfolding redis_ops by (rule on_world_E)
  have p: "prompt (client w h)" using assms(3) by (simp add: all_prompt_def)
  show "all_prompt w'" using redis_Refresh_cases(1) [OF assms(1) v p rs] assms(3) by (simp add: w' all_prompt_def)
  show "x = Inl Canceled \<Longrightarrow> server w' = server w" using redis_Refresh_cases(3) [OF assms(1) v p rs] by (simp add: w')
  show "isl x \<and> server w' = server w \<or>
      get (server w) k now = Some h \<and> held_for get now k h (lease_secs ttl) (server w') \<and> (isl x \<or> x = Inr ()) \<or>
      get (server w) k now \<noteq> Some h \<and> unchanged get now (server w) (server w') \<and> isl x"
    using redis_Refresh_cases(2) [OF assms(1) v p rs] by (simp add: w')
qed

lemma world_Release:
  assumes "redis_spec serve get" and v: "redis_valid k h ttl" and "all_prompt w" and "Release (redis_Locker serve) now k h w = (x, w')"
  shows "all_prompt w'"
    and "isl x \<and> server w' = server w \<or> get (server w) k now = Some h \<or> unchanged get now (server w) (server w')"
proof -
  from assms(4) obtain r s where rs: "redis_Release serve now k h (client w h) (server w) = (x, r, s)"
    and w': "w' = \<lparr>client = (client w)(h := r), server = s\<rparr>" unfolding redis_ops by (rule on_world_E)
  have p: "prompt (client w h)" using assms(3) by (simp add: all_prompt_def)
  show "all_prompt w'" using redis_Release_cases(1) [OF assms(1) v p rs] assms(3) by (simp add: w' all_prompt_def)
  show "isl x \<and> server w' = server w \<or> get (server w) k now = Some h \<or> unchanged get now (server w) (server w')"
    using redis_Release_cases(2) [OF assms(1) v p rs] by (simp add: w')
qed

text \<open>Where no reply is late, the Redis locker keeps the contract of a locker.\<close>

lemma redis_keeps_contract:
  assumes spec: "redis_spec serve get"
  shows "locker (redis_Locker serve) (\<lambda>w. get (server w)) (\<lambda>ttl. lease_secs ttl * Second) all_prompt redis_valid"
proof (rule locker.intro, goal_cases)
  case (1 w now k h ttl r w' t g)
  then show ?case using world_Acquire(2) [OF spec 1(2,1,3)] by (auto simp: unchanged_def)
next
  case (2 w now k h ttl w' t)
  then show ?case using world_Acquire(2) [OF spec 2(2,1,3)] by (auto simp: held_for_def)
next
  case (3 w now k h ttl w')
  then show ?case using world_Acquire(2) [OF spec 3(2,1,3)] by auto
next
  case (4 w now k h ttl rf w' t g)
  then show ?case using world_Refresh(2) [OF spec 4(2,1,3)] by (auto simp: unchanged_def)
next
  case (5 w now k h ttl w' t)
  then show ?case using world_Refresh(2) [OF spec 5(2,1,3)] by (auto simp: held_for_def)
next
  case (6 w now k h ttl w')
  then show ?case using world_Refresh(2) [OF spec 6(2,1,3)] by auto
next
  case (7 w now k h ttl w' t)
  then show ?case using world_Refresh(3) [OF spec 7(2,1,3)] by simp
next
  case (8 w now k h rf w' t g)
  then show ?case using world_Release(2) [OF spec 8(2,1,3)] by (auto simp: unchanged_def)
next
  case (9 w k t h t')
  then show ?case using spec unfolding redis_spec_def ttl_spec_def by blast
next
  case (10 w now k h ttl ra w')
  then show ?case using world_Acquire(1) [OF spec] by blast
next
  case (11 w now k h ttl rr w')
  then show ?case using world_Refresh(1) [OF spec] by blast
next
  case (12 w now k h rl w')
  then show ?case using world_Release(1) [OF spec] by blast
qed

section \<open>A server that behaves as documented\<close>

text \<open>Keys with their value and the instant after which they are gone; requests are decoded.\<close>

type_synonym ref_store = "string \<rightharpoonup> string \<times> nanos"

definition ref_get :: "ref_store \<Rightarrow> string \<Rightarrow> nanos \<Rightarrow> string option" where
  "ref_get s k t = (case s k of None \<Rightarrow> None | Some (v, x) \<Rightarrow> if t \<le> x then Some v else None)"

fun ref_handle :: "nanos \<Rightarrow> resp \<Rightarrow> ref_store \<Rightarrow> string \<times> ref_store" where
  "ref_handle now (RArr [RStr c, RStr a, RStr b, RStr d, RStr e, RStr f]) s =
     (if c = ''SET'' \<and> d = ''NX'' \<and> e = ''EX'' then
        (if ref_get s a now = None then (''+OK'' @ CRLF, s(a \<mapsto> (b, now + atoi_value (Atoi f) * Second)))
         else (''$-1'' @ CRLF, s))
      else if c = ''EVAL'' \<and> a = refreshScript then
        (if ref_get s d now = Some e then ('':1'' @ CRLF, s(d \<mapsto> (e, now + atoi_value (Atoi f) * Second)))
         else ('':0'' @ CRLF, s))
      else (''-ERR'' @ CRLF, s))"
| "ref_handle now (RArr [RStr c, RStr a, RStr b, RStr d, RStr e]) s =
     (if c = ''EVAL'' \<and> a = releaseScript then
        (if ref_get s d now = Some e then ('':1'' @ CRLF, s(d := None)) else ('':0'' @ CRLF, s))
      else (''-ERR'' @ CRLF, s))"
| "ref_handle now v s = (''-ERR'' @ CRLF, s)"

definition ref_serve :: "ref_store redis_server" where
  "ref_serve now req s = (case read_reply req of (Inr v, _) \<Rightarrow> ref_handle now v s | (Inl _, _) \<Rightarrow> (''-ERR'' @ CRLF, s))"

text \<open>The documented limit of a bulk string, and of the request, is 512 megabytes.\<close>

lemma read_reply_encodeRESP:
  assumes "\<forall>p \<in> set parts. int (length p) < 140737488355328" and "int (length parts) < 1000"
  shows "read_reply (encodeRESP parts @ rest) = (Inr (RArr (map RStr parts)), rest)"
proof -
  let ?n = "int (length parts)"
  have "readLine (Itoa ?n @ CRLF @ concat (map bulk parts) @ rest) = (Inr (Itoa ?n), concat (map bulk parts) @ rest)"
    by (rule readLine_Itoa) simp
  moreover have "Atoi (Itoa ?n) = Inr ?n" using assms(2) by (intro Atoi_Itoa) (simp add: int64_range_def)
  moreover have "makeable 16 ?n" using assms(2) by (simp add: makeable_def)
  moreover obtain f where "length (encodeRESP parts @ rest) = Suc f" by (simp add: encodeRESP_def)
  moreover have "readMany (Suc f) (length parts) (concat (map bulk parts) @ rest) = (Inr (map RStr parts), rest)" for f
    by (rule readMany_bulks [OF assms(1)])
  ultimately show ?thesis unfolding read_reply_def by (simp add: encodeRESP_def)
qed

lemma small_length: "small p \<Longrightarrow> int (length p) < 140737488355328"
  by (simp add: small_def)

lemma small_literals [simp]:
  "small ''SET''" "small ''NX''" "small ''EX''" "small ''EVAL''" "small ''1''" "small refreshScript" "small releaseScript"
  by (simp_all add: small_def refreshScript_def releaseScript_def)

lemma length_nat_digits_log: "n < 10 ^ k \<Longrightarrow> 0 < k \<Longrightarrow> length (nat_digits n) \<le> k"
proof (induction k arbitrary: n)
  case (Suc k)
  show ?case
  proof (cases "n < 10")
    case False
    with Suc.prems have k: "0 < k" by (cases k) simp_all
    have "n div 10 < 10 ^ k" using Suc.prems(1) by (simp add: less_mult_imp_div_less mult.commute)
    then have "length (nat_digits (n div 10)) \<le> k" using Suc.IH k by blast
    then show ?thesis using False by (subst nat_digits.simps) simp
  qed (subst nat_digits.simps, simp)
qed simp

lemma small_seconds: "seconds n \<Longrightarrow> small (Itoa n)"
proof -
  assume "seconds n"
  then have "1 \<le> n" "nat n < 10 ^ 10" by (auto simp: seconds_def)
  then have "length (Itoa n) \<le> 10" using length_nat_digits_log [of "nat n" 10] by (simp add: Itoa_def)
  then show ?thesis by (simp add: small_def)
qed

lemma Atoi_seconds: "seconds n \<Longrightarrow> Atoi (Itoa n) = Inr n"
  by (intro Atoi_Itoa) (simp add: seconds_def int64_range_def)

lemma read_request:
  assumes "\<forall>p \<in> set parts. small p" and "length parts \<le> 6"
  shows "read_reply (encodeRESP parts) = (Inr (RArr (map RStr parts)), '''')"
  using read_reply_encodeRESP [of parts "''''"] assms small_length by simp

lemma refreshScript_neq: "refreshScript \<noteq> releaseScript"
  by (simp add: refreshScript_def releaseScript_def)

lemma ref_serve_set:
  assumes "small k" "small h" "seconds n"
  shows "ref_serve now (set_nx k h n) s =
     (if ref_get s k now = None then (''+OK'' @ CRLF, s(k \<mapsto> (h, now + n * Second))) else (''$-1'' @ CRLF, s))"
  using read_request [of "[''SET'', k, h, ''NX'', ''EX'', Itoa n]"] assms small_seconds [OF assms(3)] Atoi_seconds [OF assms(3)]
  by (simp add: ref_serve_def set_nx_def)

lemma ref_serve_refresh:
  assumes "small k" "small h" "seconds n"
  shows "ref_serve now (eval_refresh k h n) s =
     (if ref_get s k now = Some h then ('':1'' @ CRLF, s(k \<mapsto> (h, now + n * Second))) else ('':0'' @ CRLF, s))"
  using read_request [of "[''EVAL'', refreshScript, ''1'', k, h, Itoa n]"] assms small_seconds [OF assms(3)] Atoi_seconds [OF assms(3)]
  by (simp add: ref_serve_def eval_refresh_def)

lemma ref_serve_release:
  assumes "small k" "small h"
  shows "ref_serve now (eval_release k h) s =
     (if ref_get s k now = Some h then ('':1'' @ CRLF, s(k := None)) else ('':0'' @ CRLF, s))"
  using read_request [of "[''EVAL'', releaseScript, ''1'', k, h]"] assms by (simp add: ref_serve_def eval_release_def)

lemma redis_spec_ref: "redis_spec ref_serve ref_get"
proof -
  have "set_spec ref_serve ref_get" unfolding set_spec_def
    by (auto simp: ref_serve_set held_for_def unchanged_def) (simp_all add: ref_get_def)
  moreover have "refresh_spec ref_serve ref_get" unfolding refresh_spec_def
    by (auto simp: ref_serve_refresh held_for_def unchanged_def) (simp_all add: ref_get_def)
  moreover have "release_spec ref_serve ref_get" unfolding release_spec_def
    by (auto simp: ref_serve_release unchanged_def) (simp_all add: ref_get_def)
  moreover have "ttl_spec ref_get" by (auto simp: ttl_spec_def ref_get_def split: option.splits if_splits)
  ultimately show ?thesis by (simp add: redis_spec_def)
qed

interpretation redis: locker "redis_Locker ref_serve" "\<lambda>w. ref_get (server w)" "\<lambda>ttl. lease_secs ttl * Second" all_prompt
  redis_valid
  by (rule redis_keeps_contract [OF redis_spec_ref])

section \<open>Properties\<close>




text \<open>
  a reply that announces an array or a string of extreme length makes the client panic
  instead of returning an error.
\<close>

theorem oversized_reply_panics:
  "fst (read_reply (''*9223372036854775807'' @ CRLF)) = Inl MakePanic \<and>
   fst (read_reply (''$9223372036854775807'' @ CRLF)) = Inl MakePanic"
  by (simp add: read_reply_def CRLF_def readLine_def TrimRight_def read_bulk_def Atoi_def HasPrefix_def
      is_digit_def digits_val_def digit_val_def Let_def makeable_def wrap64_def)


text \<open>A network without faults, and one whose first reply to \<open>A\<close> comes after the deadline.\<close>

definition good_link :: link where
  "good_link = \<lparr>l_dial = None, l_write = None, l_read = None\<rparr>"

definition demo_world :: "ref_store redis_world" where
  "demo_world = \<lparr>client = (\<lambda>_. NewRedisLocker ''127.0.0.1:6379'' (\<lambda>_. good_link)), server = Map.empty\<rparr>"

definition late_world :: "ref_store redis_world" where
  "late_world = demo_world\<lparr>client := (client demo_world)(''A'' :=
     NewRedisLocker ''127.0.0.1:6379'' (\<lambda>n. if n = 0 then good_link\<lparr>l_read := Some ''i/o timeout''\<rparr> else good_link))\<rparr>"

text \<open>What the client has unread, and an exchange over a link without faults.\<close>

definition unread :: "RedisLocker \<Rightarrow> string" where
  "unread r = (case conn r of None \<Rightarrow> '''' | Some b \<Rightarrow> b)"

lemma Acquire_exchange:
  assumes "l_dial (links r (dos r)) = None" and "l_write (links r (dos r)) = None"
    and "ref_serve now (set_nx k h (lease_secs ttl)) s = (reply, s')"
  shows "redis_Acquire ref_serve now k h ttl r s =
     (case l_read (links r (dos r)) of
        Some e \<Rightarrow> (Inl (LockError e), r\<lparr>dos := Suc (dos r), conn := Some (unread r @ reply)\<rparr>, s')
      | None \<Rightarrow> (case read_reply (unread r @ reply) of
          (Inl _, rest) \<Rightarrow> (Inl (LockError ''redis''), r\<lparr>dos := Suc (dos r), conn := Some rest\<rparr>, s')
        | (Inr v, rest) \<Rightarrow> (case v of RStr x \<Rightarrow> Inr (x = ''OK'') | RNil \<Rightarrow> Inr False
             | _ \<Rightarrow> Inl (LockError ''unexpected SET response''), r\<lparr>dos := Suc (dos r), conn := Some rest\<rparr>, s')))"
  using assms
  by (cases "conn r") (auto simp: redis_Acquire_def redis_do_def ensureConn_def unread_def Let_def set_nx_def
      split: option.splits prod.splits sum.splits resp.splits)

lemma Acquire_taken:
  assumes "l_dial (links r (dos r)) = None" and "l_write (links r (dos r)) = None" and "l_read (links r (dos r)) = None"
    and "unread r = ''''" and "small k" and "small h" and "seconds (lease_secs ttl)" and "ref_get s k now = None"
  shows "redis_Acquire ref_serve now k h ttl r s =
     (Inr True, r\<lparr>dos := Suc (dos r), conn := Some ''''\<rparr>, s(k \<mapsto> (h, now + lease_secs ttl * Second)))"
proof -
  have "ref_serve now (set_nx k h (lease_secs ttl)) s = (''+OK'' @ CRLF, s(k \<mapsto> (h, now + lease_secs ttl * Second)))"
    using ref_serve_set [OF assms(5-7), of now s] assms(8) by simp
  from Acquire_exchange [OF assms(1,2) this] assms(3,4) read_simple_replies(1) show ?thesis by simp
qed

abbreviation demo_key :: string where
  "demo_key \<equiv> ''cb:leader:lock''"

definition demo_redis_cluster :: "ref_store redis_world cluster" where
  "demo_redis_cluster = react (redis_Locker ref_serve) ''A'' Tick (cluster_init [''A'', ''B''] demo_key (\<lambda>_. DefaultConfig) demo_world 0)"

lemma demo_link_simps [simp]: "l_dial good_link = None" "l_write good_link = None" "l_read good_link = None"
  by (simp_all add: good_link_def)

lemma default_lease: "lease_secs (LeaseTTL DefaultConfig) = 30" "seconds 30"
  by (simp_all add: lease_secs_def DefaultConfig_def Second_def seconds_def)

lemma demo_redis_leads:
  "IsLeader (elector (nodes demo_redis_cluster ''A''))"
  "time demo_redis_cluster \<le> grant (nodes demo_redis_cluster ''A'') +
     lease_secs (LeaseTTL (cfg (elector (nodes demo_redis_cluster ''A'')))) * Second"
  "(cluster_step (redis_Locker ref_serve))\<^sup>*\<^sup>* (cluster_init [''A'', ''B''] demo_key (\<lambda>_. DefaultConfig) demo_world 0) demo_redis_cluster"
proof -
  have "Acquire (redis_Locker ref_serve) 0 demo_key ''A'' (LeaseTTL DefaultConfig) demo_world =
      (Inr True, \<lparr>client = (client demo_world)(''A'' := (client demo_world ''A'')\<lparr>dos := 1, conn := Some ''''\<rparr>),
        server = [demo_key \<mapsto> (''A'', 30 * Second)]\<rparr>)"
    unfolding redis_ops on_world_def
    by (subst Acquire_taken) (simp_all add: demo_world_def NewRedisLocker_def unread_def small_def default_lease ref_get_def)
  then have lead: "IsLeader (elector (nodes demo_redis_cluster ''A''))" "time demo_redis_cluster = 0"
    "grant (nodes demo_redis_cluster ''A'') = 0" "cfg (elector (nodes demo_redis_cluster ''A'')) = DefaultConfig\<lparr>Key := demo_key, ControllerID := ''A''\<rparr>"
    by (simp_all add: demo_redis_cluster_def react_def cluster_init_def Run_def New_def tryAcquire_def IsLeader_def
        setLeader_def granted_def Let_def)
  from lead(1) show "IsLeader (elector (nodes demo_redis_cluster ''A''))" .
  show "(cluster_step (redis_Locker ref_serve))\<^sup>*\<^sup>* (cluster_init [''A'', ''B''] demo_key (\<lambda>_. DefaultConfig) demo_world 0) demo_redis_cluster"
    unfolding demo_redis_cluster_def by (rule r_into_rtranclp, rule cluster_step.act) (simp add: cluster_init_def)
  have "lease_secs (LeaseTTL (cfg (elector (nodes demo_redis_cluster ''A'')))) = 30"
    using default_lease(1) by (simp add: lead)
  then show "time demo_redis_cluster \<le> grant (nodes demo_redis_cluster ''A'') +
      lease_secs (LeaseTTL (cfg (elector (nodes demo_redis_cluster ''A'')))) * Second" by (simp add: lead Second_def)
qed

lemma demo_redis_setting:
  "all_prompt demo_world" "\<forall>i \<in> set [''A'', ''B'']. redis_valid demo_key i (LeaseTTL DefaultConfig)"
  by (simp_all add: all_prompt_def demo_world_def prompt_def NewRedisLocker_def redis_valid_def small_def int64_range_def
      DefaultConfig_def Second_def)



end
